theory Spec2Isabelle
  imports Main
begin

section \<open>Shared data\<close>

text \<open>
  A replicated element of the document (\<^verbatim>\<open>CollaborativeFeature\<close> in
  \<^verbatim>\<open>collaboration/types.ts\<close>): an id, a kind and a geometry. Coordinates are kept
  as integers in units of 1e-6 degree, the precision every commit is rounded to
  (\<^verbatim>\<open>roundCoordinate\<close>).
\<close>

datatype kind = KLine | KPoint

record feature =
  fid :: string
  fkind :: kind
  coords :: "(int \<times> int) list"

section \<open>The realtime server: registry, gateway, eviction\<close>

text \<open>
  The server module keeps three module-level variables (\<^verbatim>\<open>rooms\<close>,
  \<^verbatim>\<open>roomCreationRate\<close>, \<^verbatim>\<open>totalRoomsCreated\<close>). What it reaches outside the
  module is part of the state as well: the document table \<^verbatim>\<open>yDocs\<close> of the
  synchronisation library, the document and presence objects themselves (a store from
  references to objects, since a room context and \<^verbatim>\<open>yDocs\<close> hold the same
  object), the timers armed with \<^verbatim>\<open>setTimeout\<close> and not yet fired or cleared, and
  the lines written to the logger.
\<close>

type_synonym roomId = string
type_synonym socket = nat
type_synonym timer = nat
type_synonym ref = nat

record config =
  ROOM_TTL_MS :: int
  ROOM_CREATION_THROTTLE_MS :: int
  wsPathSegments :: "string list"

record RoomContext =
  doc :: ref
  awareness :: ref
  connections :: "socket set"
  createdAt :: int
  lastActive :: int
  passcode :: "string option"
  cleanupTimer :: "timer option"

record ydoc =
  doc_features :: "feature list"
  doc_awareness :: "ref option"
  doc_destroyed :: bool

record awareness_obj =
  aw_states :: "socket \<rightharpoonup> string"
  aw_destroyed :: bool

datatype log_entry = Info string | Warn string

record server =
  rooms :: "roomId \<rightharpoonup> RoomContext"
  roomCreationRate :: "string \<rightharpoonup> int"
  totalRoomsCreated :: nat
  yDocs :: "roomId \<rightharpoonup> ref"
  docHeap :: "ref \<rightharpoonup> ydoc"
  awHeap :: "ref \<rightharpoonup> awareness_obj"
  nextRef :: ref
  timers :: "timer \<rightharpoonup> roomId \<times> int"
  nextTimer :: timer
  logLines :: "log_entry list"

definition initial :: server where
  "initial = \<lparr>rooms = Map.empty, roomCreationRate = Map.empty, totalRoomsCreated = 0,
     yDocs = Map.empty, docHeap = Map.empty, awHeap = Map.empty, nextRef = 0,
     timers = Map.empty, nextTimer = 0, logLines = []\<rparr>"

definition logInfo :: "string \<Rightarrow> server \<Rightarrow> server" where
  "logInfo msg s = s\<lparr>logLines := logLines s @ [Info msg]\<rparr>"

definition logWarn :: "string \<Rightarrow> server \<Rightarrow> server" where
  "logWarn msg s = s\<lparr>logLines := logLines s @ [Warn msg]\<rparr>"

subsection \<open>Timers\<close>

text \<open>
  \<^verbatim>\<open>setTimeout(() => cleanupRoom(roomId), delay)\<close> returns a new handle and leaves
  the callback pending; \<^verbatim>\<open>clearTimeout\<close> removes it. A pending timer is recorded
  with the room id its callback closes over and its delay.
\<close>

definition setTimeout :: "roomId \<Rightarrow> int \<Rightarrow> server \<Rightarrow> timer \<times> server" where
  "setTimeout roomId delay s =
     (nextTimer s,
      s\<lparr>timers := (timers s)(nextTimer s \<mapsto> (roomId, delay)), nextTimer := Suc (nextTimer s)\<rparr>)"

definition clearTimeout :: "timer \<Rightarrow> server \<Rightarrow> server" where
  "clearTimeout t s = s\<lparr>timers := (timers s)(t := None)\<rparr>"

subsection \<open>Teardown\<close>

text \<open>
  \<^verbatim>\<open>awareness.destroy()\<close> and \<^verbatim>\<open>doc.destroy()\<close> belong to the replication
  library and may throw. Whether a call throws is an input of the model
  (\<open>awThrows\<close>, \<open>docThrows\<close>); a call that throws is taken to leave its object as
  it was, a call that returns marks it destroyed.
\<close>

definition destroyAwareness :: "ref \<Rightarrow> server \<Rightarrow> server" where
  "destroyAwareness a s =
     (case awHeap s a of
        None \<Rightarrow> s
      | Some obj \<Rightarrow> s\<lparr>awHeap := (awHeap s)(a \<mapsto> obj\<lparr>aw_destroyed := True\<rparr>)\<rparr>)"

definition destroyDoc :: "ref \<Rightarrow> server \<Rightarrow> server" where
  "destroyDoc d s =
     (case docHeap s d of
        None \<Rightarrow> s
      | Some obj \<Rightarrow> s\<lparr>docHeap := (docHeap s)(d \<mapsto> obj\<lparr>doc_destroyed := True\<rparr>)\<rparr>)"

definition cleanupRoom :: "bool \<Rightarrow> bool \<Rightarrow> roomId \<Rightarrow> server \<Rightarrow> server" where
  "cleanupRoom awThrows docThrows roomId s =
     (case rooms s roomId of
        None \<Rightarrow> s
      | Some context \<Rightarrow>
          let s1 = logInfo ''destroying inactive room'' s;
              s2 = s1\<lparr>rooms := (rooms s1)(roomId \<mapsto> context\<lparr>cleanupTimer := None\<rparr>)\<rparr>;
              s3 = (if awThrows then logWarn ''failed to destroy awareness'' s2
                    else destroyAwareness (awareness context) s2);
              s4 = (if docThrows then logWarn ''failed to destroy ydoc'' s3
                    else destroyDoc (doc context) s3);
              s5 = s4\<lparr>rooms := (rooms s4)(roomId := None)\<rparr>
          in if yDocs s5 roomId \<noteq> None then s5\<lparr>yDocs := (yDocs s5)(roomId := None)\<rparr> else s5)"

definition scheduleCleanup :: "config \<Rightarrow> roomId \<Rightarrow> server \<Rightarrow> server" where
  "scheduleCleanup cfg roomId s =
     (case rooms s roomId of
        None \<Rightarrow> s
      | Some context \<Rightarrow>
          let s1 = (case cleanupTimer context of Some t \<Rightarrow> clearTimeout t s | None \<Rightarrow> s);
              (timeout, s2) = setTimeout roomId (ROOM_TTL_MS cfg) s1
          in s2\<lparr>rooms := (rooms s2)(roomId \<mapsto> context\<lparr>cleanupTimer := Some timeout\<rparr>)\<rparr>)"

text \<open>A pending timer fires: it leaves the timer queue and its callback runs.\<close>

definition timerFired :: "bool \<Rightarrow> bool \<Rightarrow> timer \<Rightarrow> server \<Rightarrow> server" where
  "timerFired awThrows docThrows t s =
     (case timers s t of
        None \<Rightarrow> s
      | Some (roomId, delay) \<Rightarrow> cleanupRoom awThrows docThrows roomId (clearTimeout t s))"

subsection \<open>Creation throttle and room creation\<close>

definition canCreateRoom :: "config \<Rightarrow> string \<Rightarrow> int \<Rightarrow> server \<Rightarrow> bool \<times> server" where
  "canCreateRoom cfg ip now s =
     (let last = (case roomCreationRate s ip of Some t \<Rightarrow> t | None \<Rightarrow> 0)
      in if now - last < ROOM_CREATION_THROTTLE_MS cfg then (False, s)
         else (True, s\<lparr>roomCreationRate := (roomCreationRate s)(ip \<mapsto> now)\<rparr>))"

text \<open>
  \<^verbatim>\<open>getYDoc\<close> of the synchronisation library: the document registered under the
  name, or a new empty one (which comes with its own presence object) registered on the
  spot.
\<close>

definition getYDoc :: "roomId \<Rightarrow> server \<Rightarrow> ref \<times> server" where
  "getYDoc roomId s =
     (case yDocs s roomId of
        Some d \<Rightarrow> (d, s)
      | None \<Rightarrow>
          let d = nextRef s; a = Suc (nextRef s)
          in (d, s\<lparr>yDocs := (yDocs s)(roomId \<mapsto> d),
                   docHeap := (docHeap s)(d \<mapsto>
                     \<lparr>doc_features = [], doc_awareness = Some a, doc_destroyed = False\<rparr>),
                   awHeap := (awHeap s)(a \<mapsto> \<lparr>aw_states = Map.empty, aw_destroyed = False\<rparr>),
                   nextRef := Suc (Suc (nextRef s))\<rparr>))"

definition newAwareness :: "server \<Rightarrow> ref \<times> server" where
  "newAwareness s =
     (nextRef s,
      s\<lparr>awHeap := (awHeap s)(nextRef s \<mapsto> \<lparr>aw_states = Map.empty, aw_destroyed = False\<rparr>),
        nextRef := Suc (nextRef s)\<rparr>)"

definition ensureRoomContext ::
    "roomId \<Rightarrow> string option \<Rightarrow> int \<Rightarrow> int \<Rightarrow> server \<Rightarrow> server" where
  "ensureRoomContext roomId pass tCreated tActive s =
     (case rooms s roomId of
        Some context \<Rightarrow> s
      | None \<Rightarrow>
          let (d, s1) = getYDoc roomId s;
              (a, s2) = (case docHeap s1 d of
                           Some obj \<Rightarrow> (case doc_awareness obj of
                                          Some a \<Rightarrow> (a, s1)
                                        | None \<Rightarrow> newAwareness s1)
                         | None \<Rightarrow> newAwareness s1);
              s3 = (case docHeap s2 d of
                      Some obj \<Rightarrow> s2\<lparr>docHeap := (docHeap s2)(d \<mapsto> obj\<lparr>doc_awareness := Some a\<rparr>)\<rparr>
                    | None \<Rightarrow> s2);
              context = \<lparr>doc = d, awareness = a, connections = {}, createdAt = tCreated,
                         lastActive = tActive, passcode = pass, cleanupTimer = None\<rparr>
          in s3\<lparr>rooms := (rooms s3)(roomId \<mapsto> context),
                totalRoomsCreated := totalRoomsCreated s3 + 1\<rparr>)"

subsection \<open>The upgrade handler (access gateway)\<close>

text \<open>
  A request as the handler sees it through the platform's parsers: the \<^verbatim>\<open>Host\<close>
  header, the result of \<^verbatim>\<open>new URL\<close> (\<open>None\<close> when it throws; the path name already
  split at \<^verbatim>\<open>/\<close>, and the query parameters \<^verbatim>\<open>k\<close> and \<^verbatim>\<open>mode\<close>), the result of
  \<^verbatim>\<open>decodeURIComponent\<close> on the room segment (\<open>None\<close> when it throws), the
  \<^verbatim>\<open>x-forwarded-for\<close> header, the peer address, and whether writing the abort
  response to the raw socket throws.
\<close>

datatype forwarded = FwdAbsent | FwdString string | FwdArray "string list"

record parsed_url =
  pathname_split :: "string list"
  param_k :: "string option"
  param_mode :: "string option"

record request =
  req_host :: "string option"
  req_url :: "parsed_url option"
  req_roomDecoded :: "string option"
  req_forwarded :: forwarded
  req_remoteAddress :: "string option"
  req_writeThrows :: bool

datatype outcome =
    Abort nat string
  | UpgradeThenClose nat string
  | Proceed roomId bool
  | UncaughtURIError

definition abortUpgrade :: "request \<Rightarrow> nat \<Rightarrow> string \<Rightarrow> server \<Rightarrow> outcome \<times> server" where
  "abortUpgrade req statusCode message s =
     (Abort statusCode message,
      if req_writeThrows req then logWarn ''failed to write abort response'' s else s)"

text \<open>
  \<^verbatim>\<open>String.prototype.trim\<close> strips the white space and the line terminators of the
  language. A string here is a list of \<^typ>\<open>char\<close>, read as the code points U+0000 to
  U+00FF; among them the stripped ones are U+0009 to U+000D, U+0020 and U+00A0.
\<close>

definition isSpace :: "char \<Rightarrow> bool" where
  "isSpace c = (c \<in> set [CHR '' '', CHR 0x09, CHR 0x0A, CHR 0x0B, CHR 0x0C, CHR 0x0D, CHR 0xA0])"

definition trim :: "string \<Rightarrow> string" where
  "trim x = rev (dropWhile isSpace (rev (dropWhile isSpace x)))"

definition extractIp :: "request \<Rightarrow> string" where
  "extractIp req =
     (case req_forwarded req of
        FwdString f \<Rightarrow>
          if length f > 0 then trim (takeWhile (\<lambda>c. c \<noteq> CHR '','') f)
          else (case req_remoteAddress req of Some a \<Rightarrow> a | None \<Rightarrow> ''unknown'')
      | FwdArray fs \<Rightarrow>
          (case fs of
             f # _ \<Rightarrow> f
           | [] \<Rightarrow> (case req_remoteAddress req of Some a \<Rightarrow> a | None \<Rightarrow> ''unknown''))
      | FwdAbsent \<Rightarrow> (case req_remoteAddress req of Some a \<Rightarrow> a | None \<Rightarrow> ''unknown''))"

fun pathMatches :: "string list \<Rightarrow> string list \<Rightarrow> bool" where
  "pathMatches [] ps = True"
| "pathMatches (w # ws) [] = False"
| "pathMatches (w # ws) (p # ps) = (p = w \<and> pathMatches ws ps)"

definition segmentAt :: "string list \<Rightarrow> nat \<Rightarrow> string option" where
  "segmentAt ps n = (if n < length ps then Some (ps ! n) else None)"

definition roomIdChar :: "char \<Rightarrow> bool" where
  "roomIdChar c =
     (let n = (of_char c :: nat)
      in (97 \<le> n \<and> n \<le> 122) \<or> (65 \<le> n \<and> n \<le> 90) \<or> (48 \<le> n \<and> n \<le> 57)
         \<or> c = CHR ''-'' \<or> c = CHR ''_'')"

definition validRoomId :: "string \<Rightarrow> bool" where
  "validRoomId r = (3 \<le> length r \<and> length r \<le> 64 \<and> list_all roomIdChar r)"

definition truthy :: "string option \<Rightarrow> bool" where
  "truthy v = (case v of None \<Rightarrow> False | Some x \<Rightarrow> x \<noteq> [])"

definition sanitizePasscode :: "string option \<Rightarrow> string option" where
  "sanitizePasscode passcodeParam =
     (if truthy passcodeParam then map_option (take 128) passcodeParam else None)"

text \<open>
  The part of the handler that touches the registry, once the room id, the sanitised
  secret, the read-only flag and the origin are known.
\<close>

definition admit ::
    "config \<Rightarrow> request \<Rightarrow> roomId \<Rightarrow> string option \<Rightarrow> bool \<Rightarrow> string \<Rightarrow> int \<Rightarrow> server
       \<Rightarrow> outcome \<times> server" where
  "admit cfg req roomId sanitizedPasscode readOnly ip now s =
     (case rooms s roomId of
        None \<Rightarrow>
          (case canCreateRoom cfg ip now s of
             (False, s1) \<Rightarrow> abortUpgrade req 429 ''Rate Limit'' s1
           | (True, s1) \<Rightarrow>
               (Proceed roomId readOnly,
                logInfo ''created room'' (ensureRoomContext roomId sanitizedPasscode now now s1)))
      | Some context \<Rightarrow>
          if truthy (passcode context) \<and> passcode context \<noteq> sanitizedPasscode
          then (UpgradeThenClose 4003 ''passcode-required'', s)
          else if \<not> truthy (passcode context) \<and> truthy sanitizedPasscode
          then (Proceed roomId readOnly,
                s\<lparr>rooms := (rooms s)(roomId \<mapsto> context\<lparr>passcode := sanitizedPasscode\<rparr>)\<rparr>)
          else (Proceed roomId readOnly, s))"

definition upgrade :: "config \<Rightarrow> request \<Rightarrow> int \<Rightarrow> server \<Rightarrow> outcome \<times> server" where
  "upgrade cfg req now s =
     (if \<not> truthy (req_host req) then abortUpgrade req 400 ''Bad Request'' s
      else case req_url req of
        None \<Rightarrow> abortUpgrade req 400 ''Bad Request'' (logWarn ''failed to parse ws url'' s)
      | Some requestUrl \<Rightarrow>
          let pathSegments = filter (\<lambda>x. x \<noteq> []) (pathname_split requestUrl)
          in if \<not> pathMatches (wsPathSegments cfg) pathSegments
             then abortUpgrade req 404 ''Not Found'' s
             else case segmentAt pathSegments (length (wsPathSegments cfg)) of
               None \<Rightarrow> abortUpgrade req 400 ''Room Required'' s
             | Some roomSegment \<Rightarrow>
                 (case req_roomDecoded req of
                    None \<Rightarrow> (UncaughtURIError, s)
                  | Some decoded \<Rightarrow>
                      let roomId = trim decoded
                      in if \<not> validRoomId roomId then abortUpgrade req 400 ''Invalid Room'' s
                         else admit cfg req roomId (sanitizePasscode (param_k requestUrl))
                                (param_mode requestUrl = Some ''ro'') (extractIp req) now s))"

subsection \<open>Attach and detach\<close>

text \<open>
  The callback handed to \<^verbatim>\<open>handleUpgrade\<close> for an admitted request, and the
  \<^verbatim>\<open>close\<close> listener it installs on the socket. \<^verbatim>\<open>setupWSConnection\<close> is the
  synchronisation library's: it wires the socket to the document registered under the
  room id, and the call itself changes nothing of the registry, the timers or the heap.
  What its listeners do afterwards is modelled below. The \<^verbatim>\<open>shutdown\<close> handler,
  which ends the process, is left out.
\<close>

datatype attached = Attached | Closed nat string

definition attach :: "roomId \<Rightarrow> socket \<Rightarrow> int \<Rightarrow> server \<Rightarrow> attached \<times> server" where
  "attach roomId ws now s =
     (case rooms s roomId of
        None \<Rightarrow> (Closed 1011 ''room-missing'', s)
      | Some room \<Rightarrow>
          let room1 = room\<lparr>connections := insert ws (connections room), lastActive := now\<rparr>
          in (case cleanupTimer room1 of
                Some t \<Rightarrow>
                  let s1 = clearTimeout t s
                  in (Attached, s1\<lparr>rooms := (rooms s1)(roomId \<mapsto> room1\<lparr>cleanupTimer := None\<rparr>)\<rparr>)
              | None \<Rightarrow> (Attached, s\<lparr>rooms := (rooms s)(roomId \<mapsto> room1)\<rparr>)))"

definition wsClose :: "config \<Rightarrow> roomId \<Rightarrow> socket \<Rightarrow> int \<Rightarrow> server \<Rightarrow> server" where
  "wsClose cfg roomId ws now s =
     (case rooms s roomId of
        None \<Rightarrow> s
      | Some current \<Rightarrow>
          let current1 = current\<lparr>connections := connections current - {ws}, lastActive := now\<rparr>;
              s1 = s\<lparr>rooms := (rooms s)(roomId \<mapsto> current1)\<rparr>
          in if connections current1 = {} then scheduleCleanup cfg roomId s1 else s1)"

subsection \<open>The listeners of the synchronisation library\<close>

text \<open>
  \<^verbatim>\<open>setupWSConnection\<close> installs listeners on an attached socket. They belong to the
  synchronisation library, which is not under \<^verbatim>\<open>src/\<close>; what they do to the room's
  document and presence object is taken from the spec.
\<close>

text \<open>
  Modelled from the spec: the library's message listener for a document update. An update
  sent by a connection of the room is applied to the room's document; the update is given
  by the feature list it leaves.
\<close>

definition applyUpdate :: "roomId \<Rightarrow> socket \<Rightarrow> feature list \<Rightarrow> server \<Rightarrow> server" where
  "applyUpdate roomId ws fs s =
     (case rooms s roomId of
        None \<Rightarrow> s
      | Some room \<Rightarrow>
          if ws \<notin> connections room then s
          else (case docHeap s (doc room) of
                  None \<Rightarrow> s
                | Some d \<Rightarrow> s\<lparr>docHeap := (docHeap s)(doc room \<mapsto> d\<lparr>doc_features := fs\<rparr>)\<rparr>))"

text \<open>
  Modelled from the spec: the library's message listener for a presence update. A presence
  record is ``created when a connection attaches, mutated only by its owning connection'':
  a connection of the room publishes a record under its own key.
\<close>

definition publishPresence :: "roomId \<Rightarrow> socket \<Rightarrow> string \<Rightarrow> server \<Rightarrow> server" where
  "publishPresence roomId ws st s =
     (case rooms s roomId of
        None \<Rightarrow> s
      | Some room \<Rightarrow>
          if ws \<notin> connections room then s
          else (case awHeap s (awareness room) of
                  None \<Rightarrow> s
                | Some a \<Rightarrow>
                    s\<lparr>awHeap := (awHeap s)(awareness room \<mapsto> a\<lparr>aw_states := (aw_states a)(ws \<mapsto> st)\<rparr>)\<rparr>))"

text \<open>
  Modelled from the spec: the library's \<^verbatim>\<open>close\<close> listener. A presence record is
  ``removed when the connection detaches'', and ``detaching a connection must synchronously
  release its presence record'': the record under the key of the closing socket is removed
  from the presence object of the room.
\<close>

definition releasePresence :: "roomId \<Rightarrow> socket \<Rightarrow> server \<Rightarrow> server" where
  "releasePresence roomId ws s =
     (case rooms s roomId of
        None \<Rightarrow> s
      | Some room \<Rightarrow>
          (case awHeap s (awareness room) of
             None \<Rightarrow> s
           | Some a \<Rightarrow>
               s\<lparr>awHeap := (awHeap s)(awareness room \<mapsto> a\<lparr>aw_states := (aw_states a)(ws := None)\<rparr>)\<rparr>))"

text \<open>
  A socket closes. The library's \<^verbatim>\<open>close\<close> listener is installed by
  \<^verbatim>\<open>setupWSConnection\<close> before the server installs its own, so it runs first.
\<close>

definition detach :: "config \<Rightarrow> roomId \<Rightarrow> socket \<Rightarrow> int \<Rightarrow> server \<Rightarrow> server" where
  "detach cfg roomId ws now s = wsClose cfg roomId ws now (releasePresence roomId ws s)"
subsection \<open>Derived notions used to state the properties\<close>

text \<open>
  The time of the last creation recorded for an origin, as \<^verbatim>\<open>canCreateRoom\<close> reads it
  (\<^verbatim>\<open>roomCreationRate.get(ip) ?? 0\<close>).
\<close>

definition lastCreation :: "server \<Rightarrow> string \<Rightarrow> int" where
  "lastCreation s ip = (case roomCreationRate s ip of Some t \<Rightarrow> t | None \<Rightarrow> 0)"

text \<open>
  A request that passes every check of the handler that precedes the registry (host, URL,
  path prefix, room segment, identifier pattern) and names the given room; the secret and
  the read-only flag it carries.
\<close>

definition requestsRoom :: "config \<Rightarrow> request \<Rightarrow> roomId \<Rightarrow> bool" where
  "requestsRoom cfg req roomId =
     (truthy (req_host req)
      \<and> (case req_url req of
            None \<Rightarrow> False
          | Some u \<Rightarrow>
              pathMatches (wsPathSegments cfg) (filter (\<lambda>x. x \<noteq> []) (pathname_split u))
              \<and> segmentAt (filter (\<lambda>x. x \<noteq> []) (pathname_split u)) (length (wsPathSegments cfg)) \<noteq> None)
      \<and> (case req_roomDecoded req of None \<Rightarrow> False | Some d \<Rightarrow> trim d = roomId)
      \<and> validRoomId roomId)"

definition suppliedSecret :: "request \<Rightarrow> string option" where
  "suppliedSecret req = (case req_url req of None \<Rightarrow> None | Some u \<Rightarrow> param_k u)"

definition wantsReadOnly :: "request \<Rightarrow> bool" where
  "wantsReadOnly req = (case req_url req of None \<Rightarrow> False | Some u \<Rightarrow> param_mode u = Some ''ro'')"

text \<open>A series of upgrade requests, each with the clock reading of its handler run.\<close>

fun upgrades :: "config \<Rightarrow> (request \<times> int) list \<Rightarrow> server \<Rightarrow> outcome list \<times> server" where
  "upgrades cfg [] s = ([], s)"
| "upgrades cfg ((req, now) # rest) s =
     (let (out, s1) = upgrade cfg req now s;
          (outs, s2) = upgrades cfg rest s1
      in (out # outs, s2))"

text \<open>Concrete inputs for the examples: the default configuration and a plain join request.\<close>

definition cfg0 :: config where
  "cfg0 = \<lparr>ROOM_TTL_MS = 3600000, ROOM_CREATION_THROTTLE_MS = 3000, wsPathSegments = [''ws'']\<rparr>"

definition joinRequest :: "string \<Rightarrow> string option \<Rightarrow> string \<Rightarrow> request" where
  "joinRequest room k addr =
     \<lparr>req_host = Some ''localhost'',
      req_url = Some \<lparr>pathname_split = ['''', ''ws'', room], param_k = k, param_mode = None\<rparr>,
      req_roomDecoded = Some room, req_forwarded = FwdAbsent,
      req_remoteAddress = Some addr, req_writeThrows = False\<rparr>"

definition created1 :: server where
  "created1 = snd (upgrade cfg0 (joinRequest ''abc123'' None ''10.0.0.1'') 1000000 initial)"

definition guarded1 :: server where
  "guarded1 = snd (upgrade cfg0 (joinRequest ''abc123'' (Some (replicate 128 CHR ''a'')) ''10.0.0.1'') 1000000 initial)"

text \<open>
  The states the server can be in. Each handler runs to completion before the next one
  starts; the steps are an upgrade request passing the gateway, the callback of
  \<^verbatim>\<open>handleUpgrade\<close> (run by the socket library once the handshake is done), the
  \<^verbatim>\<open>close\<close> event of a socket, a pending timer firing, and the listeners of the
  synchronisation library (a document update, a presence record published, a presence
  record released). The callback and the listeners are taken for any room and socket,
  which covers every order in which the libraries may deliver them.
\<close>

inductive reachable :: "config \<Rightarrow> server \<Rightarrow> bool" for cfg :: config where
  start: "reachable cfg initial"
| upgraded: "reachable cfg s \<Longrightarrow> reachable cfg (snd (upgrade cfg req now s))"
| attached: "reachable cfg s \<Longrightarrow> reachable cfg (snd (attach roomId ws now s))"
| closed: "reachable cfg s \<Longrightarrow> reachable cfg (wsClose cfg roomId ws now s)"
| fired: "reachable cfg s \<Longrightarrow> reachable cfg (timerFired awThrows docThrows t s)"
| synced: "reachable cfg s \<Longrightarrow> reachable cfg (applyUpdate roomId ws fs s)"
| published: "reachable cfg s \<Longrightarrow> reachable cfg (publishPresence roomId ws st s)"
| released: "reachable cfg s \<Longrightarrow> reachable cfg (releasePresence roomId ws s)"

definition timerImpliesEmpty :: "config \<Rightarrow> server \<Rightarrow> bool" where
  "timerImpliesEmpty cfg s =
     (\<forall>roomId room t. rooms s roomId = Some room \<longrightarrow> cleanupTimer room = Some t \<longrightarrow>
          connections room = {} \<and> timers s t = Some (roomId, ROOM_TTL_MS cfg))"

definition timersOwned :: "server \<Rightarrow> bool" where
  "timersOwned s =
     (\<forall>t roomId delay. timers s t = Some (roomId, delay) \<longrightarrow>
          (\<exists>room. rooms s roomId = Some room \<and> cleanupTimer room = Some t))"

definition timersBelowNext :: "server \<Rightarrow> bool" where
  "timersBelowNext s = (\<forall>t roomId delay. timers s t = Some (roomId, delay) \<longrightarrow> t < nextTimer s)"

definition timersConsistent :: "config \<Rightarrow> server \<Rightarrow> bool" where
  "timersConsistent cfg s = (timerImpliesEmpty cfg s \<and> timersOwned s \<and> timersBelowNext s)"

definition attached1 :: server where
  "attached1 = snd (attach ''abc123'' 5 1000100 created1)"

definition detached1 :: server where
  "detached1 = wsClose cfg0 ''abc123'' 5 1000200 attached1"

text \<open>
  A connection leaves a room and another one joins it: the close of the first socket, the
  gateway's answer to the upgrade request of the second, and the callback that attaches it.
\<close>

definition reattached ::
    "config \<Rightarrow> roomId \<Rightarrow> socket \<Rightarrow> int \<Rightarrow> request \<Rightarrow> int \<Rightarrow> socket \<Rightarrow> int \<Rightarrow> server \<Rightarrow> server" where
  "reattached cfg roomId ws t1 req t2 ws' t3 s =
     snd (attach roomId ws' t3 (snd (upgrade cfg req t2 (detach cfg roomId ws t1 s))))"

text \<open>
  A room whose only connection has sent a document update and published a presence
  record, and the same room after that connection left and another one joined with a
  secret.
\<close>

definition present1 :: server where
  "present1 = publishPresence ''abc123'' 5 ''alice''
     (applyUpdate ''abc123'' 5 [\<lparr>fid = ''f1'', fkind = KLine, coords = [(0, 0), (1000000, 1000000)]\<rparr>] attached1)"

definition rejoined1 :: server where
  "rejoined1 = reattached cfg0 ''abc123'' 5 1000200 (joinRequest ''abc123'' (Some ''s3cret'') ''10.0.0.2'')
     1000300 6 1000400 present1"

text \<open>
  The objects behind the registry: every registered room has its document under its id in
  the document table, that document and the presence object of the room are stored and
  not destroyed, and no two rooms share a document or a presence object.
\<close>

definition heapConsistent :: "server \<Rightarrow> bool" where
  "heapConsistent s =
     ((\<forall>roomId room. rooms s roomId = Some room \<longrightarrow>
          yDocs s roomId = Some (doc room)
          \<and> (\<exists>d. docHeap s (doc room) = Some d \<and> \<not> doc_destroyed d)
          \<and> (\<exists>a. awHeap s (awareness room) = Some a \<and> \<not> aw_destroyed a)
          \<and> awareness room < nextRef s)
      \<and> (\<forall>roomId d. yDocs s roomId = Some d \<longrightarrow> rooms s roomId \<noteq> None \<and> d < nextRef s)
      \<and> (\<forall>roomId roomId' d. yDocs s roomId = Some d \<longrightarrow> yDocs s roomId' = Some d \<longrightarrow> roomId = roomId')
      \<and> (\<forall>roomId roomId' room room'. rooms s roomId = Some room \<longrightarrow> rooms s roomId' = Some room' \<longrightarrow>
            awareness room = awareness room' \<longrightarrow> roomId = roomId'))"

section \<open>The client: document, view layers and the reconciler\<close>

text \<open>
  The part of \<^verbatim>\<open>RoomPage\<close> that writes to the shared document or to the layer
  table. A view layer is an object of the drawing toolkit: its identity, the feature id
  and feature the page stores on it, whether it is a circle marker or a polyline, and its
  current shape. The document holds the feature list, the selection map and the view
  slot; every transaction is recorded with its origin, as an observer of the document
  sees it. The client state gathers the connection's document, the React state fed by
  the observers, and the refs of the page (\<^verbatim>\<open>layersRef\<close> in insertion order, as a
  JavaScript \<^verbatim>\<open>Map\<close> iterates; for each attached edit handler the kind its closure
  holds). \<open>echoRemovals\<close> tells whether the toolkit answers
  \<^verbatim>\<open>map.removeLayer\<close> with a \<^verbatim>\<open>pm:remove\<close> event; the properties hold either way.
  Presence, cursors, highlights and export read the document and are left out.
\<close>

record layer =
  lid :: nat
  featureId :: "string option"
  lfeature :: "feature option"
  isCircleMarker :: bool
  latlngs :: "(int \<times> int) list"

datatype origin = LocalEdit nat | ProviderOrigin | NullOrigin

record viewState =
  center :: "int \<times> int"
  zoom :: int
  suggestedBy :: nat
  updatedAt :: int

datatype change =
    Push "feature list"
  | DeleteAt nat
  | ReplaceAt nat feature
  | ViewSet viewState
  | SelectionSet nat string
  | SelectionDelete nat

record transaction =
  tx_origin :: origin
  tx_change :: change

record client =
  readOnly :: bool
  connected :: bool
  hasMap :: bool
  undoOrigin :: nat
  clientId :: nat
  docFeatures :: "feature list"
  selectionMap :: "nat \<rightharpoonup> string"
  viewCurrent :: "viewState option"
  transactions :: "transaction list"
  featuresState :: "feature list"
  selectionState :: "nat \<rightharpoonup> string"
  layersRef :: "(string \<times> layer) list"
  layerHandlersRef :: "string \<rightharpoonup> kind"
  featureCacheRef :: "string \<rightharpoonup> feature"
  suppressLocalEventsRef :: bool
  localSelectionRef :: "string option"
  onMap :: "nat set"
  nextLayer :: nat
  echoRemovals :: bool
  toasts :: "string list"

text \<open>\<^verbatim>\<open>Map.get\<close>, \<^verbatim>\<open>Map.set\<close> (an existing key keeps its place) and \<^verbatim>\<open>Map.delete\<close>.\<close>

definition mapGet :: "'k \<Rightarrow> ('k \<times> 'v) list \<Rightarrow> 'v option" where
  "mapGet k m = map_of m k"

definition mapSet :: "'k \<Rightarrow> 'v \<Rightarrow> ('k \<times> 'v) list \<Rightarrow> ('k \<times> 'v) list" where
  "mapSet k v m = (if k \<in> fst ` set m then map (\<lambda>p. if fst p = k then (k, v) else p) m
                   else m @ [(k, v)])"

definition mapDelete :: "'k \<Rightarrow> ('k \<times> 'v) list \<Rightarrow> ('k \<times> 'v) list" where
  "mapDelete k m = filter (\<lambda>p. fst p \<noteq> k) m"

text \<open>\<^verbatim>\<open>list.findIndex((item) => item.id === id)\<close>, \<open>None\<close> for \<open>-1\<close>.\<close>

fun findIndex :: "string \<Rightarrow> feature list \<Rightarrow> nat option" where
  "findIndex i [] = None"
| "findIndex i (f # fs) = (if fid f = i then Some 0 else map_option Suc (findIndex i fs))"

text \<open>
  The writes the page makes to the document: \<^verbatim>\<open>features.push\<close>,
  \<^verbatim>\<open>features.delete(index, 1)\<close>, the same followed by \<^verbatim>\<open>features.insert(index, [f])\<close>,
  \<^verbatim>\<open>viewMap.set('current', state)\<close>, and set and delete on the selection map. The
  indices come from \<^verbatim>\<open>findIndex\<close> on the same list, so they are in range.
  \<open>commit\<close> performs the write and records the transaction.
\<close>

definition applyChange :: "change \<Rightarrow> client \<Rightarrow> client" where
  "applyChange ch c =
     (case ch of
        Push fs \<Rightarrow> c\<lparr>docFeatures := docFeatures c @ fs\<rparr>
      | DeleteAt i \<Rightarrow> c\<lparr>docFeatures := take i (docFeatures c) @ drop (Suc i) (docFeatures c)\<rparr>
      | ReplaceAt i f \<Rightarrow> c\<lparr>docFeatures := take i (docFeatures c) @ [f] @ drop (Suc i) (docFeatures c)\<rparr>
      | ViewSet v \<Rightarrow> c\<lparr>viewCurrent := Some v\<rparr>
      | SelectionSet k v \<Rightarrow> c\<lparr>selectionMap := (selectionMap c)(k \<mapsto> v)\<rparr>
      | SelectionDelete k \<Rightarrow> c\<lparr>selectionMap := (selectionMap c)(k := None)\<rparr>)"

definition commit :: "origin \<Rightarrow> change \<Rightarrow> client \<Rightarrow> client" where
  "commit orig ch c =
     (let c1 = applyChange ch c
      in c1\<lparr>transactions := transactions c1 @ [\<lparr>tx_origin = orig, tx_change = ch\<rparr>]\<rparr>)"

definition selectionObserver :: "client \<Rightarrow> client" where
  "selectionObserver c = c\<lparr>selectionState := selectionMap c\<rparr>"

definition applyBaseStyle :: "layer \<Rightarrow> feature \<Rightarrow> layer" where
  "applyBaseStyle l f = l"

text \<open>
  \<^verbatim>\<open>L.geoJSON\<close> builds exactly one layer for a feature whose geometry is a line or a
  point, which the type of the features guarantees; coordinates are already rounded, so
  \<^verbatim>\<open>normalizeFeature\<close> changes nothing.
\<close>

definition createLayerForFeature :: "feature \<Rightarrow> client \<Rightarrow> layer option \<times> client" where
  "createLayerForFeature f c =
     (if \<not> hasMap c then (None, c)
      else let createdLayer = \<lparr>lid = nextLayer c, featureId = Some (fid f), lfeature = Some f,
                                isCircleMarker = (fkind f = KPoint), latlngs = coords f\<rparr>
           in (Some (applyBaseStyle createdLayer f),
               c\<lparr>onMap := insert (nextLayer c) (onMap c), nextLayer := Suc (nextLayer c)\<rparr>))"

definition updateLayerGeometry :: "layer \<Rightarrow> feature \<Rightarrow> layer" where
  "updateLayerGeometry l f =
     (let l1 = (if fkind f = KLine \<and> \<not> isCircleMarker l then l\<lparr>latlngs := coords f\<rparr> else l);
          l2 = (if fkind f = KPoint \<and> isCircleMarker l1 then l1\<lparr>latlngs := coords f\<rparr> else l1)
      in applyBaseStyle (l2\<lparr>lfeature := Some f\<rparr>) f)"

definition detachLayerHandlers :: "string \<Rightarrow> client \<Rightarrow> client" where
  "detachLayerHandlers i c =
     (if mapGet i (layersRef c) \<noteq> None \<and> layerHandlersRef c i \<noteq> None
      then c\<lparr>layerHandlersRef := (layerHandlersRef c)(i := None)\<rparr> else c)"

definition attachLayerHandlers :: "layer \<Rightarrow> feature \<Rightarrow> client \<Rightarrow> client" where
  "attachLayerHandlers l f c =
     (let c1 = detachLayerHandlers (fid f) c
      in c1\<lparr>layerHandlersRef := (layerHandlersRef c1)(fid f \<mapsto> fkind f)\<rparr>)"

definition upsertLayer :: "client \<Rightarrow> feature \<Rightarrow> client" where
  "upsertLayer c f =
     (let c1 = c\<lparr>featureCacheRef := (featureCacheRef c)(fid f \<mapsto> f)\<rparr>
      in case mapGet (fid f) (layersRef c1) of
           Some existing \<Rightarrow> c1\<lparr>layersRef := mapSet (fid f) (updateLayerGeometry existing f) (layersRef c1)\<rparr>
         | None \<Rightarrow>
             (case createLayerForFeature f c1 of
                (Some newLayer, c2) \<Rightarrow>
                   attachLayerHandlers newLayer f (c2\<lparr>layersRef := mapSet (fid f) newLayer (layersRef c2)\<rparr>)
              | (None, c2) \<Rightarrow> c2))"

definition handleRemoveFeature :: "layer \<Rightarrow> client \<Rightarrow> client" where
  "handleRemoveFeature l c =
     (if \<not> connected c \<or> \<not> hasMap c then c
      else case featureId l of
        None \<Rightarrow> c
      | Some i \<Rightarrow>
          if i \<noteq> [] \<and> selectionState c (clientId c) = Some i
          then selectionObserver (commit NullOrigin (SelectionDelete (clientId c)) c)
          else c)"

text \<open>
  Reconciliation and the \<^verbatim>\<open>pm:remove\<close> listener call each other: the listener
  commits a deletion, the document's observer runs \<^verbatim>\<open>syncLayers\<close>, which removes
  stale layers from the map, which may raise \<^verbatim>\<open>pm:remove\<close> again. The recursion ends
  because the nested listener runs with the suppression flag set.
\<close>

function syncLayers :: "feature list \<Rightarrow> client \<Rightarrow> client"
  and handleRemove :: "layer \<Rightarrow> client \<Rightarrow> client" where
  "syncLayers items c =
     (if \<not> hasMap c then c
      else let c0 = foldl upsertLayer c items
           in foldl (\<lambda>c1 i.
                if i \<in> fid ` set items then c1
                else let c2 = (case mapGet i (layersRef c1) of
                                 None \<Rightarrow> c1
                               | Some l \<Rightarrow>
                                   let c3 = (detachLayerHandlers i c1)\<lparr>suppressLocalEventsRef := True\<rparr>;
                                       c4 = (if lid l \<in> onMap c3
                                             then let c5 = c3\<lparr>onMap := onMap c3 - {lid l}\<rparr>
                                                  in if echoRemovals c5
                                                     then handleRemoveFeature l (handleRemove l c5)
                                                     else c5
                                             else c3)
                                   in c4\<lparr>suppressLocalEventsRef := False\<rparr>)
                     in c2\<lparr>layersRef := mapDelete i (layersRef c2),
                           featureCacheRef := (featureCacheRef c2)(i := None)\<rparr>)
              c0 (map fst (layersRef c0)))"
| "handleRemove l c =
     (if \<not> connected c \<or> suppressLocalEventsRef c \<or> readOnly c then c
      else case featureId l of
        None \<Rightarrow> c
      | Some i \<Rightarrow>
          if i = [] then c
          else case findIndex i (docFeatures c) of
            None \<Rightarrow> c
          | Some index \<Rightarrow>
              let c1 = commit (LocalEdit (undoOrigin c)) (DeleteAt index) c
              in syncLayers (docFeatures c1) (c1\<lparr>featuresState := docFeatures c1\<rparr>))"
  by pat_completeness auto


termination
  by (relation "measure (\<lambda>x. case x of Inl (items, c) \<Rightarrow> Suc 0
                                   | Inr (l, c) \<Rightarrow> if suppressLocalEventsRef c then 0 else 2)")
     simp_all

declare syncLayers.simps [simp del] handleRemove.simps [simp del]

text \<open>The observers of the feature list and of the selection map, and a transaction with its observers.\<close>

definition featuresObserver :: "client \<Rightarrow> client" where
  "featuresObserver c = syncLayers (docFeatures c) (c\<lparr>featuresState := docFeatures c\<rparr>)"

definition transact :: "origin \<Rightarrow> change \<Rightarrow> client \<Rightarrow> client" where
  "transact orig ch c =
     (let c1 = commit orig ch c
      in case ch of
           Push fs \<Rightarrow> featuresObserver c1
         | DeleteAt i \<Rightarrow> featuresObserver c1
         | ReplaceAt i f \<Rightarrow> featuresObserver c1
         | ViewSet v \<Rightarrow> c1
         | SelectionSet k v \<Rightarrow> selectionObserver c1
         | SelectionDelete k \<Rightarrow> selectionObserver c1)"

definition firePmRemove :: "layer \<Rightarrow> client \<Rightarrow> client" where
  "firePmRemove l c = handleRemoveFeature l (handleRemove l c)"

definition mapRemoveLayer :: "layer \<Rightarrow> client \<Rightarrow> client" where
  "mapRemoveLayer l c =
     (if lid l \<in> onMap c
      then let c1 = c\<lparr>onMap := onMap c - {lid l}\<rparr>
           in if echoRemovals c1 then firePmRemove l c1 else c1
      else c)"

text \<open>The user removes a layer with the toolkit: it leaves the map and \<^verbatim>\<open>pm:remove\<close> is raised.\<close>

definition userRemovesLayer :: "layer \<Rightarrow> client \<Rightarrow> client" where
  "userRemovesLayer l c = firePmRemove l (c\<lparr>onMap := onMap c - {lid l}\<rparr>)"

definition normalizeFeature :: "feature \<Rightarrow> feature" where
  "normalizeFeature f = f"

definition layerToFeature :: "layer \<Rightarrow> string \<Rightarrow> kind \<Rightarrow> feature" where
  "layerToFeature l i k =
     normalizeFeature \<lparr>fid = i, fkind = (case lfeature l of Some f \<Rightarrow> fkind f | None \<Rightarrow> k),
                       coords = latlngs l\<rparr>"

definition commitFeatureUpdate :: "feature \<Rightarrow> client \<Rightarrow> client" where
  "commitFeatureUpdate f c =
     (if \<not> connected c then c
      else case findIndex (fid f) (docFeatures c) of
        None \<Rightarrow> c
      | Some index \<Rightarrow> transact (LocalEdit (undoOrigin c)) (ReplaceAt index f) c)"

text \<open>
  The function that \<^verbatim>\<open>attachLayerHandlers\<close> wraps in \<^verbatim>\<open>throttle\<close> and installs
  for the edit events of a layer; the throttle only delays or drops calls.
  \<open>userEditsLayer\<close> is the toolkit reshaping a layer and raising the event.
\<close>

definition editHandler :: "layer \<Rightarrow> string \<Rightarrow> kind \<Rightarrow> client \<Rightarrow> client" where
  "editHandler l i k c =
     (if \<not> connected c then c
      else let updated = layerToFeature l i k
           in commitFeatureUpdate updated (c\<lparr>featureCacheRef := (featureCacheRef c)(i \<mapsto> updated)\<rparr>))"


definition handleCreate :: "layer \<Rightarrow> string \<Rightarrow> client \<Rightarrow> client" where
  "handleCreate l newId c =
     (if \<not> connected c then c
      else if readOnly c
      then (mapRemoveLayer l (c\<lparr>suppressLocalEventsRef := True\<rparr>))\<lparr>suppressLocalEventsRef := False\<rparr>
      else let k = (if isCircleMarker l then KPoint else KLine);
               f = normalizeFeature (layerToFeature l newId k);
               l1 = l\<lparr>featureId := Some (fid f), lfeature := Some f\<rparr>;
               c1 = c\<lparr>featureCacheRef := (featureCacheRef c)(fid f \<mapsto> f),
                      layersRef := mapSet (fid f) l1 (layersRef c)\<rparr>;
               c2 = attachLayerHandlers l1 f c1;
               c3 = transact (LocalEdit (undoOrigin c2)) (Push [f]) c2;
               c4 = c3\<lparr>localSelectionRef := Some (fid f)\<rparr>
           in transact NullOrigin (SelectionSet (clientId c4) (fid f)) c4)"

definition toast :: "string \<Rightarrow> client \<Rightarrow> client" where
  "toast msg c = c\<lparr>toasts := toasts c @ [msg]\<rparr>"

definition handleImportFiles :: "feature list \<Rightarrow> client \<Rightarrow> client" where
  "handleImportFiles importedFeatures c =
     (if \<not> connected c then toast ''Connexion non etablie.'' c
      else if readOnly c then toast ''Session en lecture seule.'' c
      else if importedFeatures = [] then c
      else toast ''element(s) importe(s).''
             (transact (LocalEdit (undoOrigin c)) (Push importedFeatures) c))"

definition shareView :: "bool \<Rightarrow> viewState \<Rightarrow> client \<Rightarrow> client" where
  "shareView silent state c =
     (if \<not> hasMap c \<or> \<not> connected c then c
      else if readOnly c then (if \<not> silent then toast ''Session en lecture seule.'' c else c)
      else let c1 = transact (LocalEdit (undoOrigin c)) (ViewSet state) c
           in if \<not> silent then toast ''Vue partagee avec la session.'' c1 else c1)"

text \<open>\<^verbatim>\<open>handleUndo\<close> and \<^verbatim>\<open>handleRedo\<close>, with the manager's action as a parameter.\<close>

definition handleUndo :: "(client \<Rightarrow> client) \<Rightarrow> client \<Rightarrow> client" where
  "handleUndo undo c = (if readOnly c then c else if connected c then undo c else c)"

definition handleRedo :: "(client \<Rightarrow> client) \<Rightarrow> client \<Rightarrow> client" where
  "handleRedo redo c = (if readOnly c then c else if connected c then redo c else c)"



text \<open>A transaction of a peer, applied by the provider.\<close>

definition remoteUpdate :: "change \<Rightarrow> client \<Rightarrow> client" where
  "remoteUpdate ch c = transact ProviderOrigin ch c"

subsection \<open>Derived notions used to state the properties\<close>

text \<open>The transactions that change the feature list.\<close>

definition featureChange :: "change \<Rightarrow> bool" where
  "featureChange ch = (case ch of Push fs \<Rightarrow> True | DeleteAt i \<Rightarrow> True | ReplaceAt i f \<Rightarrow> True
                        | ViewSet v \<Rightarrow> False | SelectionSet k v \<Rightarrow> False | SelectionDelete k \<Rightarrow> False)"

definition featureTransactions :: "client \<Rightarrow> transaction list" where
  "featureTransactions c = filter (\<lambda>t. featureChange (tx_change t)) (transactions c)"

text \<open>The body of the second loop of \<^verbatim>\<open>syncLayers\<close>, for one key of the layer table.\<close>

definition removeStale :: "feature list \<Rightarrow> client \<Rightarrow> string \<Rightarrow> client" where
  "removeStale items c1 i =
     (if i \<in> fid ` set items then c1
      else let c2 = (case mapGet i (layersRef c1) of
                       None \<Rightarrow> c1
                     | Some l \<Rightarrow>
                         (mapRemoveLayer l ((detachLayerHandlers i c1)\<lparr>suppressLocalEventsRef := True\<rparr>))
                           \<lparr>suppressLocalEventsRef := False\<rparr>)
           in c2\<lparr>layersRef := mapDelete i (layersRef c2),
                 featureCacheRef := (featureCacheRef c2)(i := None)\<rparr>)"

text \<open>What reconciliation never touches: the feature list, its transactions, the session's flags.\<close>

definition docFrame :: "client \<Rightarrow> client \<Rightarrow> bool" where
  "docFrame c c' =
     (docFeatures c' = docFeatures c \<and> featureTransactions c' = featureTransactions c
      \<and> connected c' = connected c \<and> readOnly c' = readOnly c \<and> hasMap c' = hasMap c
      \<and> undoOrigin c' = undoOrigin c \<and> clientId c' = clientId c
      \<and> echoRemovals c' = echoRemovals c)"

text \<open>The feature ids that have a layer, and a layer that matches a feature.\<close>

definition layerKeys :: "client \<Rightarrow> string set" where
  "layerKeys c = fst ` set (layersRef c)"

definition layerFor :: "feature \<Rightarrow> layer \<Rightarrow> bool" where
  "layerFor f l =
     (featureId l = Some (fid f) \<and> lfeature l = Some f \<and> latlngs l = coords f
      \<and> isCircleMarker l = (fkind f = KPoint))"

text \<open>
  Concrete inputs for the examples: a connected client with an empty document, the same
  client opened read-only, a line of three points, and the read-only client after a peer
  has committed the line.
\<close>

definition editor0 :: client where
  "editor0 = \<lparr>readOnly = False, connected = True, hasMap = True, undoOrigin = 7, clientId = 42,
     docFeatures = [], selectionMap = Map.empty, viewCurrent = None, transactions = [],
     featuresState = [], selectionState = Map.empty, layersRef = [], layerHandlersRef = Map.empty,
     featureCacheRef = Map.empty, suppressLocalEventsRef = False, localSelectionRef = None,
     onMap = {}, nextLayer = 0, echoRemovals = True, toasts = []\<rparr>"

definition viewer0 :: client where
  "viewer0 = editor0\<lparr>readOnly := True\<rparr>"

definition track1 :: feature where
  "track1 = \<lparr>fid = ''f1'', fkind = KLine, coords = [(0, 0), (1000000, 1000000), (2000000, 0)]\<rparr>"

definition viewer1 :: client where
  "viewer1 = remoteUpdate (Push [track1]) viewer0"

subsection \<open>Connection setup\<close>




subsection \<open>The page and its events\<close>

text \<open>
  The page together with the modes of the drawing toolkit (\<^verbatim>\<open>map.pm\<close>): global edit
  mode, global removal mode, global drag mode and the shape being drawn. The page switches
  them in its toggle functions; the user switches them with the controls of the toolkit,
  of which \<^verbatim>\<open>addControls\<close> shows those for lines, circle markers, removal and edit
  when the session is not read-only, and none of the others (\<^verbatim>\<open>dragMode: false\<close>).
  What the toolkit does to the other modes when one is enabled is not visible in the
  page; the model leaves them as they are.
\<close>

datatype shape = Line | CircleMarker


record page =
  cl :: client
  globalEditMode :: bool
  globalRemovalMode :: bool
  globalDragMode :: bool
  drawing :: "shape option"














definition modesOff :: "page \<Rightarrow> bool" where
  "modesOff p = (\<not> globalEditMode p \<and> \<not> globalRemovalMode p \<and> \<not> globalDragMode p \<and> drawing p = None)"

text \<open>
  The transactions a client originates on the feature list or the view slot: those that
  did not come from the provider and are not writes to the selection map.
\<close>

definition selectionChange :: "change \<Rightarrow> bool" where
  "selectionChange ch = (case ch of SelectionSet k v \<Rightarrow> True | SelectionDelete k \<Rightarrow> True
                          | Push fs \<Rightarrow> False | DeleteAt i \<Rightarrow> False | ReplaceAt i f \<Rightarrow> False
                          | ViewSet v \<Rightarrow> False)"

definition ownWrites :: "client \<Rightarrow> transaction list" where
  "ownWrites c = filter (\<lambda>t. tx_origin t \<noteq> ProviderOrigin \<and> \<not> selectionChange (tx_change t))
                   (transactions c)"



text \<open>What no event of a read-only session changes, remote ones included.\<close>

definition ownFrame :: "client \<Rightarrow> client \<Rightarrow> bool" where
  "ownFrame c c' =
     (ownWrites c' = ownWrites c \<and> readOnly c' = readOnly c \<and> connected c' = connected c
      \<and> hasMap c' = hasMap c)"

section \<open>The undo manager\<close>

text \<open>
  Modelled from the spec: the undo manager itself (\<^verbatim>\<open>Y.UndoManager\<close> of the replication
  library), of which the repository holds only the construction
  (\<^verbatim>\<open>trackedOrigins: new Set([undoOrigin])\<close>, scope: the feature list) and the calls
  \<^verbatim>\<open>undo()\<close> and \<^verbatim>\<open>redo()\<close>. The document's feature list is a sequence of
  items, each with an identity, a feature and a deletion mark; a transaction is known by
  its origin, the items it inserted (each with the identity of its left neighbour) and the
  identities of the items it deleted. The manager keeps an undo stack and a redo stack of
  transactions; it records a transaction only when its origin is the client's own tag,
  clearing the redo stack; undo pops the most recent recorded transaction, applies its
  inverse (the items it inserted are deleted, the items it deleted are restored) and
  pushes it on the redo stack.
\<close>

record item =
  item_id :: nat
  item_feature :: feature
  item_deleted :: bool

record docTransaction =
  dtx_origin :: origin
  dtx_inserted :: "(nat option \<times> item) list"
  dtx_deleted :: "nat list"

record undoManager =
  trackedOrigin :: nat
  undoStack :: "docTransaction list"
  redoStack :: "docTransaction list"

fun insertAfter :: "nat option \<Rightarrow> item \<Rightarrow> item list \<Rightarrow> item list" where
  "insertAfter None new d = new # d"
| "insertAfter (Some p) new [] = [new]"
| "insertAfter (Some p) new (x # xs) =
     (if item_id x = p then x # new # xs else x # insertAfter (Some p) new xs)"

definition markDeleted :: "nat list \<Rightarrow> bool \<Rightarrow> item list \<Rightarrow> item list" where
  "markDeleted ids flag d = map (\<lambda>x. if item_id x \<in> set ids then x\<lparr>item_deleted := flag\<rparr> else x) d"

definition insertedIds :: "docTransaction \<Rightarrow> nat list" where
  "insertedIds t = map (\<lambda>p. item_id (snd p)) (dtx_inserted t)"

text \<open>
  Modelled from the spec: how the document applies a transaction (the replication engine,
  not part of the repository). The deleted items are marked, the inserted items are put
  after their left neighbours.
\<close>

definition applyTransaction :: "docTransaction \<Rightarrow> item list \<Rightarrow> item list" where
  "applyTransaction t d =
     foldl (\<lambda>d' p. insertAfter (fst p) (snd p) d') (markDeleted (dtx_deleted t) True d) (dtx_inserted t)"

text \<open>
  Modelled from the spec: the inverse of a transaction as the undo manager applies it
  (``applies its inverse''): what it inserted is deleted, what it deleted is restored.
\<close>

definition invertTransaction :: "docTransaction \<Rightarrow> item list \<Rightarrow> item list" where
  "invertTransaction t d = markDeleted (dtx_deleted t) False (markDeleted (insertedIds t) True d)"

definition visibleFeatures :: "item list \<Rightarrow> feature list" where
  "visibleFeatures d = map item_feature (filter (\<lambda>x. \<not> item_deleted x) d)"

text \<open>
  Modelled from the spec: the manager's stacks are ``populated only from transactions whose
  origin equals this client's own local-edit tag''; a new local edit clears the redo stack.
\<close>

definition afterTransaction :: "docTransaction \<Rightarrow> undoManager \<Rightarrow> undoManager" where
  "afterTransaction t m =
     (if dtx_origin t = LocalEdit (trackedOrigin m)
      then m\<lparr>undoStack := t # undoStack m, redoStack := []\<rparr>
      else m)"

definition transactDoc :: "docTransaction \<Rightarrow> undoManager \<times> item list \<Rightarrow> undoManager \<times> item list" where
  "transactDoc t s = (afterTransaction t (fst s), applyTransaction t (snd s))"

text \<open>
  Modelled from the spec: ``undo pops the most recent locally-tagged transaction, applies
  its inverse, and pushes it to the redo stack''; redo is the reverse.
\<close>

definition undo :: "undoManager \<times> item list \<Rightarrow> undoManager \<times> item list" where
  "undo s =
     (case undoStack (fst s) of
        [] \<Rightarrow> s
      | t # ts \<Rightarrow> ((fst s)\<lparr>undoStack := ts, redoStack := t # redoStack (fst s)\<rparr>,
                   invertTransaction t (snd s)))"

definition redo :: "undoManager \<times> item list \<Rightarrow> undoManager \<times> item list" where
  "redo s =
     (case redoStack (fst s) of
        [] \<Rightarrow> s
      | t # ts \<Rightarrow> ((fst s)\<lparr>redoStack := ts, undoStack := t # undoStack (fst s)\<rparr>,
                   markDeleted (dtx_deleted t) True (markDeleted (insertedIds t) False (snd s))))"

text \<open>The items a transaction inserted or deleted, and the entries of the list with a given identity.\<close>

definition touched :: "docTransaction \<Rightarrow> nat set" where
  "touched t = set (insertedIds t) \<union> set (dtx_deleted t)"

definition itemState :: "item list \<Rightarrow> nat \<Rightarrow> item list" where
  "itemState d i = filter (\<lambda>x. item_id x = i) d"

text \<open>
  A transaction that can be applied to a document: the items it inserts are new and not
  among those it deletes, and the items it deletes are not deleted already.
\<close>

definition applicable :: "docTransaction \<Rightarrow> item list \<Rightarrow> bool" where
  "applicable t d =
     (list_all (\<lambda>i. i \<notin> item_id ` set d \<and> i \<notin> set (dtx_deleted t)) (insertedIds t)
      \<and> list_all (\<lambda>x. item_id x \<in> set (dtx_deleted t) \<longrightarrow> \<not> item_deleted x) d)"

text \<open>Concrete inputs for the example: a transaction that inserts one point feature.\<close>

definition pushItem :: "origin \<Rightarrow> nat option \<Rightarrow> nat \<Rightarrow> string \<Rightarrow> docTransaction" where
  "pushItem orig after i name =
     \<lparr>dtx_origin = orig,
      dtx_inserted = [(after, \<lparr>item_id = i,
                               item_feature = \<lparr>fid = name, fkind = KPoint, coords = [(0, 0)]\<rparr>,
                               item_deleted = False\<rparr>)],
      dtx_deleted = []\<rparr>"

definition manager0 :: undoManager where
  "manager0 = \<lparr>trackedOrigin = 7, undoStack = [], redoStack = []\<rparr>"

section \<open>Properties of the server\<close>

subsection \<open>Projections of the state through the helpers\<close>

lemma logWarn_fields [simp]:
  "rooms (logWarn m s) = rooms s"
  "roomCreationRate (logWarn m s) = roomCreationRate s"
  "totalRoomsCreated (logWarn m s) = totalRoomsCreated s"
  "yDocs (logWarn m s) = yDocs s"
  "docHeap (logWarn m s) = docHeap s"
  "awHeap (logWarn m s) = awHeap s"
  "timers (logWarn m s) = timers s"
  "nextTimer (logWarn m s) = nextTimer s"
  "nextRef (logWarn m s) = nextRef s"
  by (simp_all add: logWarn_def)

lemma logInfo_fields [simp]:
  "rooms (logInfo m s) = rooms s"
  "roomCreationRate (logInfo m s) = roomCreationRate s"
  "totalRoomsCreated (logInfo m s) = totalRoomsCreated s"
  "yDocs (logInfo m s) = yDocs s"
  "docHeap (logInfo m s) = docHeap s"
  "awHeap (logInfo m s) = awHeap s"
  "timers (logInfo m s) = timers s"
  "nextTimer (logInfo m s) = nextTimer s"
  "nextRef (logInfo m s) = nextRef s"
  by (simp_all add: logInfo_def)

lemma abortUpgrade_fields [simp]:
  "fst (abortUpgrade req c m s) = Abort c m"
  "rooms (snd (abortUpgrade req c m s)) = rooms s"
  "roomCreationRate (snd (abortUpgrade req c m s)) = roomCreationRate s"
  "totalRoomsCreated (snd (abortUpgrade req c m s)) = totalRoomsCreated s"
  "yDocs (snd (abortUpgrade req c m s)) = yDocs s"
  "docHeap (snd (abortUpgrade req c m s)) = docHeap s"
  "awHeap (snd (abortUpgrade req c m s)) = awHeap s"
  "timers (snd (abortUpgrade req c m s)) = timers s"
  "nextTimer (snd (abortUpgrade req c m s)) = nextTimer s"
  "nextRef (snd (abortUpgrade req c m s)) = nextRef s"
  by (simp_all add: abortUpgrade_def)

lemma destroyAwareness_fields [simp]:
  "rooms (destroyAwareness a s) = rooms s"
  "yDocs (destroyAwareness a s) = yDocs s"
  "timers (destroyAwareness a s) = timers s"
  "nextTimer (destroyAwareness a s) = nextTimer s"
  "nextRef (destroyAwareness a s) = nextRef s"
  "logLines (destroyAwareness a s) = logLines s"
  "docHeap (destroyAwareness a s) = docHeap s"
  by (simp_all add: destroyAwareness_def split: option.split)

lemma destroyDoc_fields [simp]:
  "rooms (destroyDoc d s) = rooms s"
  "yDocs (destroyDoc d s) = yDocs s"
  "timers (destroyDoc d s) = timers s"
  "nextTimer (destroyDoc d s) = nextTimer s"
  "nextRef (destroyDoc d s) = nextRef s"
  "logLines (destroyDoc d s) = logLines s"
  "awHeap (destroyDoc d s) = awHeap s"
  by (simp_all add: destroyDoc_def split: option.split)

subsection \<open>Eviction\<close>

lemma rooms_cleanupRoom: "rooms (cleanupRoom a d rid s) = (rooms s)(rid := None)"
  by (cases "rooms s rid") (auto simp: cleanupRoom_def Let_def)

lemma timers_cleanupRoom: "timers (cleanupRoom a d rid s) = timers s"
  by (cases "rooms s rid") (auto simp: cleanupRoom_def Let_def)

lemma cleanupRoom_noop: "rooms s rid = None \<Longrightarrow> cleanupRoom a d rid s = s"
  by (simp add: cleanupRoom_def)

lemma logLines_cleanupRoom:
  "rooms s rid = Some c \<Longrightarrow>
   logLines (cleanupRoom a d rid s) =
     logLines s @ [Info ''destroying inactive room'']
       @ (if a then [Warn ''failed to destroy awareness''] else [])
       @ (if d then [Warn ''failed to destroy ydoc''] else [])"
  by (simp add: cleanupRoom_def Let_def logInfo_def logWarn_def)

subsection \<open>The gateway\<close>

lemma upgrade_admit:
  "requestsRoom cfg req roomId \<Longrightarrow>
   upgrade cfg req now s =
     admit cfg req roomId (sanitizePasscode (suppliedSecret req)) (wantsReadOnly req) (extractIp req) now s"
  by (auto simp: requestsRoom_def upgrade_def suppliedSecret_def wantsReadOnly_def Let_def
      split: option.splits)

lemma canCreateRoom_False:
  "now - lastCreation s ip < ROOM_CREATION_THROTTLE_MS cfg \<Longrightarrow> canCreateRoom cfg ip now s = (False, s)"
  by (simp add: canCreateRoom_def lastCreation_def)

lemma canCreateRoom_True:
  "\<not> now - lastCreation s ip < ROOM_CREATION_THROTTLE_MS cfg \<Longrightarrow>
   canCreateRoom cfg ip now s = (True, s\<lparr>roomCreationRate := (roomCreationRate s)(ip \<mapsto> now)\<rparr>)"
  by (simp add: canCreateRoom_def lastCreation_def)

lemma rooms_ensureRoomContext:
  "rooms s roomId = None \<Longrightarrow>
   \<exists>c. rooms (ensureRoomContext roomId pass t1 t2 s) = (rooms s)(roomId \<mapsto> c)
       \<and> connections c = {} \<and> cleanupTimer c = None \<and> passcode c = pass
       \<and> createdAt c = t1 \<and> lastActive c = t2"
  by (auto simp: ensureRoomContext_def getYDoc_def newAwareness_def Let_def
      split: option.split prod.split)

lemma ensureRoomContext_fields [simp]:
  "roomCreationRate (ensureRoomContext roomId pass t1 t2 s) = roomCreationRate s"
  "timers (ensureRoomContext roomId pass t1 t2 s) = timers s"
  "nextTimer (ensureRoomContext roomId pass t1 t2 s) = nextTimer s"
  by (simp_all add: ensureRoomContext_def getYDoc_def newAwareness_def Let_def
      split: option.split prod.split)

lemma upgrade_rate_limited:
  assumes "fst (upgrade cfg req now s) = Abort 429 m"
  shows "roomCreationRate (snd (upgrade cfg req now s)) = roomCreationRate s"
    and "rooms (snd (upgrade cfg req now s)) = rooms s"
  using assms
  by (auto simp: upgrade_def admit_def canCreateRoom_def abortUpgrade_def logWarn_def Let_def
      split: option.splits if_splits)

lemma upgrades_rate_limited:
  "list_all (\<lambda>out. out = Abort 429 ''Rate Limit'') (fst (upgrades cfg reqs s)) \<Longrightarrow>
   roomCreationRate (snd (upgrades cfg reqs s)) = roomCreationRate s
   \<and> rooms (snd (upgrades cfg reqs s)) = rooms s"
proof (induction reqs arbitrary: s)
  case Nil
  then show ?case by simp
next
  case (Cons a reqs)
  obtain req now where a: "a = (req, now)" by (cases a)
  obtain out s1 where u: "upgrade cfg req now s = (out, s1)" by (cases "upgrade cfg req now s")
  obtain outs s2 where us: "upgrades cfg reqs s1 = (outs, s2)" by (cases "upgrades cfg reqs s1")
  from Cons.prems a u us have out: "out = Abort 429 ''Rate Limit''"
    and rest: "list_all (\<lambda>out. out = Abort 429 ''Rate Limit'') (fst (upgrades cfg reqs s1))"
    by simp_all
  from u out have "fst (upgrade cfg req now s) = Abort 429 ''Rate Limit''" by simp
  from upgrade_rate_limited[OF this] u
  have "roomCreationRate s1 = roomCreationRate s" "rooms s1 = rooms s" by simp_all
  with Cons.IH[OF rest] a u us show ?case by simp
qed

lemma admit_new_allowed:
  assumes "rooms s roomId = None" "\<not> now - lastCreation s ip < ROOM_CREATION_THROTTLE_MS cfg"
  shows "fst (admit cfg req roomId pass ro ip now s) = Proceed roomId ro"
    and "\<exists>c. rooms (snd (admit cfg req roomId pass ro ip now s)) = (rooms s)(roomId \<mapsto> c)
            \<and> connections c = {} \<and> cleanupTimer c = None \<and> passcode c = pass"
    and "roomCreationRate (snd (admit cfg req roomId pass ro ip now s)) = (roomCreationRate s)(ip \<mapsto> now)"
proof -
  let ?s1 = "s\<lparr>roomCreationRate := (roomCreationRate s)(ip \<mapsto> now)\<rparr>"
  have a: "admit cfg req roomId pass ro ip now s =
     (Proceed roomId ro, logInfo ''created room'' (ensureRoomContext roomId pass now now ?s1))"
    using assms by (simp add: admit_def canCreateRoom_True)
  show "fst (admit cfg req roomId pass ro ip now s) = Proceed roomId ro" by (simp add: a)
  have "rooms ?s1 roomId = None" using assms(1) by simp
  from rooms_ensureRoomContext[OF this, of pass now now]
  show "\<exists>c. rooms (snd (admit cfg req roomId pass ro ip now s)) = (rooms s)(roomId \<mapsto> c)
            \<and> connections c = {} \<and> cleanupTimer c = None \<and> passcode c = pass"
    by (auto simp: a)
  show "roomCreationRate (snd (admit cfg req roomId pass ro ip now s)) = (roomCreationRate s)(ip \<mapsto> now)"
    by (simp add: a)
qed

lemma admit_new_limited:
  assumes "rooms s roomId = None" "now - lastCreation s ip < ROOM_CREATION_THROTTLE_MS cfg"
  shows "fst (admit cfg req roomId pass ro ip now s) = Abort 429 ''Rate Limit''"
    and "rooms (snd (admit cfg req roomId pass ro ip now s)) = rooms s"
    and "yDocs (snd (admit cfg req roomId pass ro ip now s)) = yDocs s"
    and "totalRoomsCreated (snd (admit cfg req roomId pass ro ip now s)) = totalRoomsCreated s"
  using assms by (simp_all add: admit_def canCreateRoom_False)

subsection \<open>The example inputs\<close>

lemma trim_abc123: "trim ''abc123'' = ''abc123''"
  by (simp add: trim_def isSpace_def)

lemma valid_abc123: "validRoomId ''abc123''"
  by (simp add: validRoomId_def roomIdChar_def)

lemma trim_xyz789: "trim ''xyz789'' = ''xyz789''"
  by (simp add: trim_def isSpace_def)

lemma valid_xyz789: "validRoomId ''xyz789''"
  by (simp add: validRoomId_def roomIdChar_def)

lemma requestsRoom_join:
  "trim room = room \<Longrightarrow> validRoomId room \<Longrightarrow> room \<noteq> [] \<Longrightarrow>
   requestsRoom cfg0 (joinRequest room k addr) room"
  by (simp add: requestsRoom_def joinRequest_def cfg0_def truthy_def segmentAt_def)

lemma requestsRoom_abc123: "requestsRoom cfg0 (joinRequest ''abc123'' k a) ''abc123''"
  by (rule requestsRoom_join) (simp_all add: trim_abc123 valid_abc123)

lemma requestsRoom_xyz789: "requestsRoom cfg0 (joinRequest ''xyz789'' k a) ''xyz789''"
  by (rule requestsRoom_join) (simp_all add: trim_xyz789 valid_xyz789)

lemma joinRequest_fields [simp]:
  "extractIp (joinRequest room k addr) = addr"
  "suppliedSecret (joinRequest room k addr) = k"
  "wantsReadOnly (joinRequest room k addr) = False"
  "req_writeThrows (joinRequest room k addr) = False"
  by (simp_all add: extractIp_def suppliedSecret_def wantsReadOnly_def joinRequest_def)

lemma created1_eq:
  "created1 = \<lparr>rooms = [''abc123'' \<mapsto> \<lparr>doc = 0, awareness = 1, connections = {}, createdAt = 1000000,
                  lastActive = 1000000, passcode = None, cleanupTimer = None\<rparr>],
     roomCreationRate = [''10.0.0.1'' \<mapsto> 1000000], totalRoomsCreated = 1,
     yDocs = [''abc123'' \<mapsto> 0],
     docHeap = [0 \<mapsto> \<lparr>doc_features = [], doc_awareness = Some 1, doc_destroyed = False\<rparr>],
     awHeap = [1 \<mapsto> \<lparr>aw_states = Map.empty, aw_destroyed = False\<rparr>], nextRef = 2,
     timers = Map.empty, nextTimer = 0, logLines = [Info ''created room'']\<rparr>"
  unfolding created1_def
  apply (simp add: upgrade_admit[OF requestsRoom_abc123])
  apply (simp add: admit_def initial_def canCreateRoom_def cfg0_def sanitizePasscode_def truthy_def
      ensureRoomContext_def getYDoc_def Let_def logInfo_def)
  done

subsection \<open>Eviction is terminal and idempotent\<close>

text \<open>
  Claim C8. After \<^verbatim>\<open>cleanupRoom\<close> has run for a room id, the id is absent from the
  registry, whether or not destroying the presence object or the document throws; a
  throw is written to the log as a warning and the function still returns; a second call for
  the same id, whatever the teardown would do then, leaves the state as the first call
  left it.
\<close>

theorem cleanupRoom_terminal_idempotent:
  "rooms (cleanupRoom awThrows docThrows roomId s) roomId = None
   \<and> cleanupRoom awThrows' docThrows' roomId (cleanupRoom awThrows docThrows roomId s)
       = cleanupRoom awThrows docThrows roomId s
   \<and> (rooms s roomId \<noteq> None \<and> awThrows \<longrightarrow>
        Warn ''failed to destroy awareness'' \<in> set (logLines (cleanupRoom awThrows docThrows roomId s)))
   \<and> (rooms s roomId \<noteq> None \<and> docThrows \<longrightarrow>
        Warn ''failed to destroy ydoc'' \<in> set (logLines (cleanupRoom awThrows docThrows roomId s)))"
proof (intro conjI)
  show gone: "rooms (cleanupRoom awThrows docThrows roomId s) roomId = None"
    by (simp add: rooms_cleanupRoom)
  show "cleanupRoom awThrows' docThrows' roomId (cleanupRoom awThrows docThrows roomId s)
       = cleanupRoom awThrows docThrows roomId s"
    using gone by (rule cleanupRoom_noop)
  show "rooms s roomId \<noteq> None \<and> awThrows \<longrightarrow>
        Warn ''failed to destroy awareness'' \<in> set (logLines (cleanupRoom awThrows docThrows roomId s))"
    by (auto simp: logLines_cleanupRoom)
  show "rooms s roomId \<noteq> None \<and> docThrows \<longrightarrow>
        Warn ''failed to destroy ydoc'' \<in> set (logLines (cleanupRoom awThrows docThrows roomId s))"
    by (auto simp: logLines_cleanupRoom)
qed

theorem cleanupRoom_terminal_idempotent_witness:
  "rooms created1 ''abc123'' \<noteq> None
   \<and> rooms (cleanupRoom True True ''abc123'' created1) ''abc123'' = None
   \<and> cleanupRoom False False ''abc123'' (cleanupRoom True True ''abc123'' created1)
       = cleanupRoom True True ''abc123'' created1
   \<and> Warn ''failed to destroy awareness'' \<in> set (logLines (cleanupRoom True True ''abc123'' created1))
   \<and> Warn ''failed to destroy ydoc'' \<in> set (logLines (cleanupRoom True True ''abc123'' created1))"
proof -
  have h: "rooms created1 ''abc123'' \<noteq> None" by (simp add: created1_eq)
  from h cleanupRoom_terminal_idempotent[of True True "''abc123''" created1 False False]
  show ?thesis by simp
qed

subsection \<open>The creation throttle\<close>

text \<open>
  Claim C9. With the throttle at 3000 ms, two requests from one origin for two distinct
  rooms that do not exist yet, the origin being free to create at the time of the first:
  the first is admitted and creates its room; a second one 500 ms later is refused with
  status 429 and creates nothing (no room, no document, no count); a second one 4000 ms
  later is admitted, and both rooms exist.
\<close>

theorem creation_throttle_scenario:
  assumes throttle: "ROOM_CREATION_THROTTLE_MS cfg = 3000"
    and req1: "requestsRoom cfg req1 room1" and req2: "requestsRoom cfg req2 room2"
    and distinct: "room1 \<noteq> room2"
    and origin: "extractIp req1 = extractIp req2"
    and new1: "rooms s room1 = None" and new2: "rooms s room2 = None"
    and free: "3000 \<le> t - lastCreation s (extractIp req1)"
  shows "fst (upgrade cfg req1 t s) = Proceed room1 (wantsReadOnly req1)
    \<and> rooms (snd (upgrade cfg req1 t s)) room1 \<noteq> None
    \<and> fst (upgrade cfg req2 (t + 500) (snd (upgrade cfg req1 t s))) = Abort 429 ''Rate Limit''
    \<and> rooms (snd (upgrade cfg req2 (t + 500) (snd (upgrade cfg req1 t s)))) room2 = None
    \<and> yDocs (snd (upgrade cfg req2 (t + 500) (snd (upgrade cfg req1 t s))))
         = yDocs (snd (upgrade cfg req1 t s))
    \<and> totalRoomsCreated (snd (upgrade cfg req2 (t + 500) (snd (upgrade cfg req1 t s))))
         = totalRoomsCreated (snd (upgrade cfg req1 t s))
    \<and> fst (upgrade cfg req2 (t + 4000) (snd (upgrade cfg req1 t s))) = Proceed room2 (wantsReadOnly req2)
    \<and> rooms (snd (upgrade cfg req2 (t + 4000) (snd (upgrade cfg req1 t s)))) room1 \<noteq> None
    \<and> rooms (snd (upgrade cfg req2 (t + 4000) (snd (upgrade cfg req1 t s)))) room2 \<noteq> None"
proof -
  let ?ip = "extractIp req1"
  let ?p1 = "sanitizePasscode (suppliedSecret req1)"
  let ?p2 = "sanitizePasscode (suppliedSecret req2)"
  let ?s1 = "snd (upgrade cfg req1 t s)"
  have u1: "upgrade cfg req1 t s = admit cfg req1 room1 ?p1 (wantsReadOnly req1) ?ip t s"
    by (rule upgrade_admit[OF req1])
  have u2: "upgrade cfg req2 t' s' = admit cfg req2 room2 ?p2 (wantsReadOnly req2) ?ip t' s'" for t' s'
    using upgrade_admit[OF req2] origin by simp
  have ok: "\<not> t - lastCreation s ?ip < ROOM_CREATION_THROTTLE_MS cfg"
    using throttle free by simp
  note first = admit_new_allowed[OF new1 ok, of req1 ?p1 "wantsReadOnly req1"]
  from first(2) obtain c where c: "rooms ?s1 = (rooms s)(room1 \<mapsto> c)" by (auto simp: u1)
  have r1: "rooms ?s1 room1 \<noteq> None" by (simp add: c)
  have r2: "rooms ?s1 room2 = None" using distinct new2 by (simp add: c)
  have last: "lastCreation ?s1 ?ip = t" using first(3) by (simp add: u1 lastCreation_def)
  have lim: "t + 500 - lastCreation ?s1 ?ip < ROOM_CREATION_THROTTLE_MS cfg"
    by (simp add: last throttle)
  have ok2: "\<not> t + 4000 - lastCreation ?s1 ?ip < ROOM_CREATION_THROTTLE_MS cfg"
    by (simp add: last throttle)
  note second = admit_new_limited[OF r2 lim, of req2 ?p2 "wantsReadOnly req2"]
  note third = admit_new_allowed[OF r2 ok2, of req2 ?p2 "wantsReadOnly req2"]
  from third(2) obtain c' where c': "rooms (snd (upgrade cfg req2 (t + 4000) ?s1)) = (rooms ?s1)(room2 \<mapsto> c')"
    by (auto simp: u2)
  show ?thesis
  proof (intro conjI)
    show "fst (upgrade cfg req1 t s) = Proceed room1 (wantsReadOnly req1)"
      using first(1) by (simp add: u1)
    show "rooms ?s1 room1 \<noteq> None" by (rule r1)
    show "fst (upgrade cfg req2 (t + 500) ?s1) = Abort 429 ''Rate Limit''"
      using second(1) by (simp add: u2)
    show "rooms (snd (upgrade cfg req2 (t + 500) ?s1)) room2 = None"
      using second(2) r2 by (simp add: u2)
    show "yDocs (snd (upgrade cfg req2 (t + 500) ?s1)) = yDocs ?s1"
      using second(3) by (simp add: u2)
    show "totalRoomsCreated (snd (upgrade cfg req2 (t + 500) ?s1)) = totalRoomsCreated ?s1"
      using second(4) by (simp add: u2)
    show "fst (upgrade cfg req2 (t + 4000) ?s1) = Proceed room2 (wantsReadOnly req2)"
      using third(1) by (simp add: u2)
    show "rooms (snd (upgrade cfg req2 (t + 4000) ?s1)) room1 \<noteq> None"
      using r1 distinct by (simp add: c')
    show "rooms (snd (upgrade cfg req2 (t + 4000) ?s1)) room2 \<noteq> None"
      by (simp add: c')
  qed
qed

theorem creation_throttle_scenario_witness:
  "ROOM_CREATION_THROTTLE_MS cfg0 = 3000
   \<and> requestsRoom cfg0 (joinRequest ''abc123'' None ''10.0.0.1'') ''abc123''
   \<and> requestsRoom cfg0 (joinRequest ''xyz789'' None ''10.0.0.1'') ''xyz789''
   \<and> ''abc123'' \<noteq> ''xyz789''
   \<and> extractIp (joinRequest ''abc123'' None ''10.0.0.1'') = extractIp (joinRequest ''xyz789'' None ''10.0.0.1'')
   \<and> rooms initial ''abc123'' = None \<and> rooms initial ''xyz789'' = None
   \<and> 3000 \<le> 1000000 - lastCreation initial (extractIp (joinRequest ''abc123'' None ''10.0.0.1''))
   \<and> fst (upgrade cfg0 (joinRequest ''xyz789'' None ''10.0.0.1'') 1000500 created1) = Abort 429 ''Rate Limit''
   \<and> rooms (snd (upgrade cfg0 (joinRequest ''xyz789'' None ''10.0.0.1'') 1000500 created1)) ''xyz789'' = None
   \<and> fst (upgrade cfg0 (joinRequest ''xyz789'' None ''10.0.0.1'') 1004000 created1) = Proceed ''xyz789'' False
   \<and> rooms (snd (upgrade cfg0 (joinRequest ''xyz789'' None ''10.0.0.1'') 1004000 created1)) ''abc123'' \<noteq> None
   \<and> rooms (snd (upgrade cfg0 (joinRequest ''xyz789'' None ''10.0.0.1'') 1004000 created1)) ''xyz789'' \<noteq> None"
proof -
  have h1: "ROOM_CREATION_THROTTLE_MS cfg0 = 3000" by (simp add: cfg0_def)
  have h4: "''abc123'' \<noteq> ''xyz789''" by simp
  have h5: "extractIp (joinRequest ''abc123'' None ''10.0.0.1'')
            = extractIp (joinRequest ''xyz789'' None ''10.0.0.1'')" by simp
  have h6: "rooms initial ''abc123'' = None" by (simp add: initial_def)
  have h7: "rooms initial ''xyz789'' = None" by (simp add: initial_def)
  have h8: "3000 \<le> 1000000 - lastCreation initial (extractIp (joinRequest ''abc123'' None ''10.0.0.1''))"
    by (simp add: lastCreation_def initial_def)
  from creation_throttle_scenario[OF h1 requestsRoom_abc123 requestsRoom_xyz789 h4 h5 h6 h7 h8]
  show ?thesis
    using h1 h4 h6 h7 h8 requestsRoom_abc123 requestsRoom_xyz789
    by (simp add: created1_def)
qed

subsection \<open>Refused creations and the recorded time\<close>

text \<open>
  Claim C10. \<^verbatim>\<open>canCreateRoom\<close> allows a creation exactly when the throttle interval
  has passed since the time recorded for the origin; when it refuses, it leaves the whole
  state as it was, and when it allows, it records the current time. So after any series of
  upgrade requests that were all refused with status 429, the time recorded for every
  origin is what it was before the series, and the origin's next attempt is decided as if
  the refused ones had not happened.
\<close>

theorem rejected_creation_keeps_timestamp:
  "(fst (canCreateRoom cfg ip now s) \<longleftrightarrow> \<not> now - lastCreation s ip < ROOM_CREATION_THROTTLE_MS cfg)
   \<and> (\<not> fst (canCreateRoom cfg ip now s) \<longrightarrow> snd (canCreateRoom cfg ip now s) = s)
   \<and> (fst (canCreateRoom cfg ip now s) \<longrightarrow>
        lastCreation (snd (canCreateRoom cfg ip now s)) ip = now)
   \<and> (list_all (\<lambda>out. out = Abort 429 ''Rate Limit'') (fst (upgrades cfg reqs s)) \<longrightarrow>
        lastCreation (snd (upgrades cfg reqs s)) ip = lastCreation s ip
        \<and> fst (canCreateRoom cfg ip now (snd (upgrades cfg reqs s))) = fst (canCreateRoom cfg ip now s))"
proof (intro conjI impI)
  show "fst (canCreateRoom cfg ip now s) \<longleftrightarrow> \<not> now - lastCreation s ip < ROOM_CREATION_THROTTLE_MS cfg"
    by (simp add: canCreateRoom_def lastCreation_def)
  show "snd (canCreateRoom cfg ip now s) = s" if "\<not> fst (canCreateRoom cfg ip now s)"
    using that by (simp add: canCreateRoom_def split: if_splits)
  show "lastCreation (snd (canCreateRoom cfg ip now s)) ip = now" if "fst (canCreateRoom cfg ip now s)"
    using that by (simp add: canCreateRoom_def lastCreation_def split: if_splits)
next
  assume r: "list_all (\<lambda>out. out = Abort 429 ''Rate Limit'') (fst (upgrades cfg reqs s))"
  from upgrades_rate_limited[OF r]
  have eq: "roomCreationRate (snd (upgrades cfg reqs s)) = roomCreationRate s" by simp
  show "lastCreation (snd (upgrades cfg reqs s)) ip = lastCreation s ip"
    by (simp add: lastCreation_def eq)
  show "fst (canCreateRoom cfg ip now (snd (upgrades cfg reqs s))) = fst (canCreateRoom cfg ip now s)"
    by (simp add: canCreateRoom_def eq)
qed

theorem rejected_creation_keeps_timestamp_witness:
  "\<not> fst (canCreateRoom cfg0 ''10.0.0.1'' 1000500 created1)
   \<and> snd (canCreateRoom cfg0 ''10.0.0.1'' 1000500 created1) = created1
   \<and> fst (canCreateRoom cfg0 ''10.0.0.1'' 1004000 created1)
   \<and> lastCreation (snd (canCreateRoom cfg0 ''10.0.0.1'' 1004000 created1)) ''10.0.0.1'' = 1004000
   \<and> list_all (\<lambda>out. out = Abort 429 ''Rate Limit'')
        (fst (upgrades cfg0 [(joinRequest ''xyz789'' None ''10.0.0.1'', 1000500),
                             (joinRequest ''xyz789'' None ''10.0.0.1'', 1002000)] created1))
   \<and> lastCreation (snd (upgrades cfg0 [(joinRequest ''xyz789'' None ''10.0.0.1'', 1000500),
                             (joinRequest ''xyz789'' None ''10.0.0.1'', 1002000)] created1)) ''10.0.0.1''
       = 1000000
   \<and> fst (canCreateRoom cfg0 ''10.0.0.1'' 1003000
        (snd (upgrades cfg0 [(joinRequest ''xyz789'' None ''10.0.0.1'', 1000500),
                             (joinRequest ''xyz789'' None ''10.0.0.1'', 1002000)] created1)))"
proof -
  let ?reqs = "[(joinRequest ''xyz789'' None ''10.0.0.1'', 1000500),
                (joinRequest ''xyz789'' None ''10.0.0.1'', 1002000)]"
  have last: "lastCreation created1 ''10.0.0.1'' = 1000000"
    by (simp add: created1_eq lastCreation_def)
  have no: "\<not> fst (canCreateRoom cfg0 ''10.0.0.1'' 1000500 created1)"
    by (simp add: canCreateRoom_False last cfg0_def)
  have yes: "fst (canCreateRoom cfg0 ''10.0.0.1'' 1004000 created1)"
    by (simp add: canCreateRoom_True last cfg0_def)
  have yes': "fst (canCreateRoom cfg0 ''10.0.0.1'' 1003000 created1)"
    by (simp add: canCreateRoom_True last cfg0_def)
  have new: "rooms created1 ''xyz789'' = None" by (simp add: created1_eq)
  have lim: "t - lastCreation created1 ''10.0.0.1'' < ROOM_CREATION_THROTTLE_MS cfg0"
    if "t < 1003000" for t
    using that by (simp add: last cfg0_def)
  have one: "upgrade cfg0 (joinRequest ''xyz789'' None ''10.0.0.1'') t created1
             = (Abort 429 ''Rate Limit'', created1)" if "t < 1003000" for t
    using lim[OF that]
    by (simp add: upgrade_admit[OF requestsRoom_xyz789] admit_def new canCreateRoom_False
        abortUpgrade_def)
  have all: "list_all (\<lambda>out. out = Abort 429 ''Rate Limit'') (fst (upgrades cfg0 ?reqs created1))"
    by (simp add: one)
  from no yes yes' all last
    rejected_creation_keeps_timestamp[of cfg0 "''10.0.0.1''" 1000500 created1 "[]"]
    rejected_creation_keeps_timestamp[of cfg0 "''10.0.0.1''" 1004000 created1 "[]"]
    rejected_creation_keeps_timestamp[of cfg0 "''10.0.0.1''" 1003000 created1 ?reqs]
  show ?thesis by simp
qed

lemma sanitizePasscode_Some:
  "sanitizePasscode (Some k) = (if k = [] then None else Some (take 128 k))"
  by (simp add: sanitizePasscode_def truthy_def)

lemma sanitizePasscode_None [simp]: "sanitizePasscode None = None"
  by (simp add: sanitizePasscode_def truthy_def)

lemma sanitizePasscode_truthy: "truthy (sanitizePasscode k) \<longleftrightarrow> sanitizePasscode k \<noteq> None"
  by (cases k) (auto simp: sanitizePasscode_def truthy_def)

lemma admit_existing:
  assumes "rooms s roomId = Some room"
  shows "admit cfg req roomId pass ro ip now s =
     (if truthy (passcode room) \<and> passcode room \<noteq> pass
      then (UpgradeThenClose 4003 ''passcode-required'', s)
      else if \<not> truthy (passcode room) \<and> truthy pass
      then (Proceed roomId ro, s\<lparr>rooms := (rooms s)(roomId \<mapsto> room\<lparr>passcode := pass\<rparr>)\<rparr>)
      else (Proceed roomId ro, s))"
  using assms by (simp add: admit_def)

subsection \<open>The access secret\<close>

text \<open>
  Claim C3, as the code has it. For a request that names an existing room: when the room
  has a stored secret \<open>S\<close>, the request is refused with close code 4003, the state
  untouched, exactly when the supplied secret cut to its first 128 characters (none, when
  it is absent or empty) differs from \<open>S\<close>, and it is admitted, the state untouched,
  when the cut secret equals \<open>S\<close> (so in particular when the client supplies
  \<open>S\<close> itself, a stored secret having at most 128 characters); when the room has no
  secret and none is supplied, the request is admitted and the state is untouched. The
  comparison is on the cut secret, not on what the client sent.
\<close>

theorem passcode_gate:
  assumes req: "requestsRoom cfg req roomId"
    and room: "rooms s roomId = Some room"
  shows "(passcode room = Some S \<and> S \<noteq> [] \<and> sanitizePasscode (suppliedSecret req) \<noteq> Some S \<longrightarrow>
            upgrade cfg req now s = (UpgradeThenClose 4003 ''passcode-required'', s))
     \<and> (passcode room = Some S \<and> S \<noteq> [] \<and> sanitizePasscode (suppliedSecret req) = Some S \<longrightarrow>
            upgrade cfg req now s = (Proceed roomId (wantsReadOnly req), s))
     \<and> (passcode room = Some S \<and> S \<noteq> [] \<and> length S \<le> 128 \<and> suppliedSecret req = Some S \<longrightarrow>
            upgrade cfg req now s = (Proceed roomId (wantsReadOnly req), s))
     \<and> (passcode room = None \<and> sanitizePasscode (suppliedSecret req) = None \<longrightarrow>
            upgrade cfg req now s = (Proceed roomId (wantsReadOnly req), s))
     \<and> (suppliedSecret req = Some k \<longrightarrow>
            sanitizePasscode (suppliedSecret req) = (if k = [] then None else Some (take 128 k)))
     \<and> (suppliedSecret req = None \<longrightarrow> sanitizePasscode (suppliedSecret req) = None)"
proof -
  note u = upgrade_admit[OF req, of now s] admit_existing[OF room]
  show ?thesis
  proof (intro conjI impI)
    assume "passcode room = Some S \<and> S \<noteq> [] \<and> sanitizePasscode (suppliedSecret req) \<noteq> Some S"
    then show "upgrade cfg req now s = (UpgradeThenClose 4003 ''passcode-required'', s)"
      by (auto simp: u truthy_def)
  next
    assume "passcode room = Some S \<and> S \<noteq> [] \<and> sanitizePasscode (suppliedSecret req) = Some S"
    then show "upgrade cfg req now s = (Proceed roomId (wantsReadOnly req), s)"
      by (simp add: u truthy_def)
  next
    assume "passcode room = Some S \<and> S \<noteq> [] \<and> length S \<le> 128 \<and> suppliedSecret req = Some S"
    then show "upgrade cfg req now s = (Proceed roomId (wantsReadOnly req), s)"
      by (simp add: u truthy_def sanitizePasscode_Some)
  next
    assume "passcode room = None \<and> sanitizePasscode (suppliedSecret req) = None"
    then show "upgrade cfg req now s = (Proceed roomId (wantsReadOnly req), s)"
      by (simp add: u truthy_def)
  next
    assume "suppliedSecret req = Some k"
    then show "sanitizePasscode (suppliedSecret req) = (if k = [] then None else Some (take 128 k))"
      by (simp add: sanitizePasscode_Some)
  next
    assume "suppliedSecret req = None"
    then show "sanitizePasscode (suppliedSecret req) = None" by simp
  qed
qed

lemma guarded1_rooms:
  "rooms guarded1 = [''abc123'' \<mapsto> \<lparr>doc = 0, awareness = 1, connections = {}, createdAt = 1000000,
                  lastActive = 1000000, passcode = Some (replicate 128 CHR ''a''), cleanupTimer = None\<rparr>]"
  unfolding guarded1_def
  apply (simp add: upgrade_admit[OF requestsRoom_abc123] sanitizePasscode_Some)
  apply (simp add: admit_def initial_def canCreateRoom_def cfg0_def
      ensureRoomContext_def getYDoc_def Let_def logInfo_def)
  done

theorem passcode_gate_counterexample:
  "passcode (the (rooms guarded1 ''abc123'')) = Some (replicate 128 CHR ''a'')
   \<and> suppliedSecret (joinRequest ''abc123'' (Some (replicate 129 CHR ''a'')) ''10.0.0.2'')
       = Some (replicate 129 CHR ''a'')
   \<and> replicate 129 CHR ''a'' \<noteq> replicate 128 CHR ''a''
   \<and> upgrade cfg0 (joinRequest ''abc123'' (Some (replicate 129 CHR ''a'')) ''10.0.0.2'') 1000100 guarded1
       = (Proceed ''abc123'' False, guarded1)"
proof -
  have ne: "replicate 129 CHR ''a'' \<noteq> replicate 128 CHR ''a''"
  proof
    assume "replicate 129 CHR ''a'' = replicate 128 CHR ''a''"
    then have "length (replicate 129 CHR ''a'') = length (replicate 128 CHR ''a'')" by simp
    then show False by simp
  qed
  have "upgrade cfg0 (joinRequest ''abc123'' (Some (replicate 129 CHR ''a'')) ''10.0.0.2'') 1000100 guarded1
       = (Proceed ''abc123'' False, guarded1)"
    apply (simp add: upgrade_admit[OF requestsRoom_abc123] sanitizePasscode_Some)
    apply (simp add: admit_def guarded1_rooms truthy_def)
    done
  with ne show ?thesis by (simp add: guarded1_rooms)
qed

lemma attach_missing: "rooms s roomId = None \<Longrightarrow> attach roomId ws now s = (Closed 1011 ''room-missing'', s)"
  by (simp add: attach_def)

lemma timerFired_rooms:
  "timers s t = Some (roomId, delay) \<Longrightarrow> rooms (timerFired a d t s) = (rooms s)(roomId := None)"
  by (simp add: timerFired_def rooms_cleanupRoom clearTimeout_def)

lemma scheduleCleanup_Some:
  assumes "rooms s roomId = Some room"
  shows "scheduleCleanup cfg roomId s =
     s\<lparr>timers := ((case cleanupTimer room of Some t \<Rightarrow> (timers s)(t := None) | None \<Rightarrow> timers s))
                    (nextTimer s \<mapsto> (roomId, ROOM_TTL_MS cfg)),
       nextTimer := Suc (nextTimer s),
       rooms := (rooms s)(roomId \<mapsto> room\<lparr>cleanupTimer := Some (nextTimer s)\<rparr>)\<rparr>"
  using assms
  by (cases "cleanupTimer room") (simp_all add: scheduleCleanup_def setTimeout_def clearTimeout_def)

lemma wsClose_last:
  assumes "rooms s roomId = Some room" "connections room - {ws} = {}"
  shows "wsClose cfg roomId ws now s =
     s\<lparr>timers := ((case cleanupTimer room of Some t \<Rightarrow> (timers s)(t := None) | None \<Rightarrow> timers s))
                    (nextTimer s \<mapsto> (roomId, ROOM_TTL_MS cfg)),
       nextTimer := Suc (nextTimer s),
       rooms := (rooms s)(roomId \<mapsto>
          room\<lparr>connections := {}, lastActive := now, cleanupTimer := Some (nextTimer s)\<rparr>)\<rparr>"
proof -
  let ?cur = "room\<lparr>connections := connections room - {ws}, lastActive := now\<rparr>"
  let ?s1 = "s\<lparr>rooms := (rooms s)(roomId \<mapsto> ?cur)\<rparr>"
  have r: "rooms ?s1 roomId = Some ?cur" by simp
  have "wsClose cfg roomId ws now s = scheduleCleanup cfg roomId ?s1"
    using assms by (simp add: wsClose_def Let_def)
  also have "\<dots> = ?s1\<lparr>timers := ((case cleanupTimer ?cur of Some t \<Rightarrow> (timers ?s1)(t := None) | None \<Rightarrow> timers ?s1))
                    (nextTimer ?s1 \<mapsto> (roomId, ROOM_TTL_MS cfg)),
       nextTimer := Suc (nextTimer ?s1),
       rooms := (rooms ?s1)(roomId \<mapsto> ?cur\<lparr>cleanupTimer := Some (nextTimer ?s1)\<rparr>)\<rparr>"
    by (rule scheduleCleanup_Some[OF r])
  also have "\<dots> = s\<lparr>timers := ((case cleanupTimer room of Some t \<Rightarrow> (timers s)(t := None) | None \<Rightarrow> timers s))
                    (nextTimer s \<mapsto> (roomId, ROOM_TTL_MS cfg)),
       nextTimer := Suc (nextTimer s),
       rooms := (rooms s)(roomId \<mapsto>
          room\<lparr>connections := {}, lastActive := now, cleanupTimer := Some (nextTimer s)\<rparr>)\<rparr>"
    by (cases "cleanupTimer room") (simp_all add: assms(2))
  finally show ?thesis .
qed

lemma wsClose_not_last:
  assumes "rooms s roomId = Some room" "connections room - {ws} \<noteq> {}"
  shows "wsClose cfg roomId ws now s =
     s\<lparr>rooms := (rooms s)(roomId \<mapsto> room\<lparr>connections := connections room - {ws}, lastActive := now\<rparr>)\<rparr>"
  using assms by (simp add: wsClose_def Let_def)

lemma attach_Some:
  assumes "rooms s roomId = Some room"
  shows "attach roomId ws now s =
     (Attached,
      s\<lparr>timers := (case cleanupTimer room of Some t \<Rightarrow> (timers s)(t := None) | None \<Rightarrow> timers s),
        rooms := (rooms s)(roomId \<mapsto>
          room\<lparr>connections := insert ws (connections room), lastActive := now, cleanupTimer := None\<rparr>)\<rparr>)"
proof (cases "cleanupTimer room")
  case None
  with assms show ?thesis by (cases room) (simp add: attach_def)
next
  case (Some t)
  with assms show ?thesis by (simp add: attach_def clearTimeout_def)
qed

subsection \<open>The library's listeners\<close>

lemma applyUpdate_fields [simp]:
  "rooms (applyUpdate roomId ws fs s) = rooms s"
  "timers (applyUpdate roomId ws fs s) = timers s"
  "nextTimer (applyUpdate roomId ws fs s) = nextTimer s"
  "yDocs (applyUpdate roomId ws fs s) = yDocs s"
  "nextRef (applyUpdate roomId ws fs s) = nextRef s"
  "awHeap (applyUpdate roomId ws fs s) = awHeap s"
  by (simp_all add: applyUpdate_def split: option.split)

lemma publishPresence_fields [simp]:
  "rooms (publishPresence roomId ws st s) = rooms s"
  "timers (publishPresence roomId ws st s) = timers s"
  "nextTimer (publishPresence roomId ws st s) = nextTimer s"
  "yDocs (publishPresence roomId ws st s) = yDocs s"
  "nextRef (publishPresence roomId ws st s) = nextRef s"
  "docHeap (publishPresence roomId ws st s) = docHeap s"
  by (simp_all add: publishPresence_def split: option.split)

lemma releasePresence_fields [simp]:
  "rooms (releasePresence roomId ws s) = rooms s"
  "timers (releasePresence roomId ws s) = timers s"
  "nextTimer (releasePresence roomId ws s) = nextTimer s"
  "yDocs (releasePresence roomId ws s) = yDocs s"
  "nextRef (releasePresence roomId ws s) = nextRef s"
  "docHeap (releasePresence roomId ws s) = docHeap s"
  by (simp_all add: releasePresence_def split: option.split)

subsection \<open>Detach, then attach before the timer fires\<close>

lemma detach_last:
  assumes "rooms s roomId = Some room" "connections room - {ws} = {}"
  shows "detach cfg roomId ws now s =
     (releasePresence roomId ws s)\<lparr>timers := ((case cleanupTimer room of Some t \<Rightarrow> (timers s)(t := None) | None \<Rightarrow> timers s))
                    (nextTimer s \<mapsto> (roomId, ROOM_TTL_MS cfg)),
       nextTimer := Suc (nextTimer s),
       rooms := (rooms s)(roomId \<mapsto>
          room\<lparr>connections := {}, lastActive := now, cleanupTimer := Some (nextTimer s)\<rparr>)\<rparr>"
proof -
  have r: "rooms (releasePresence roomId ws s) roomId = Some room" using assms(1) by simp
  show ?thesis
    unfolding detach_def
    by (cases "cleanupTimer room") (simp_all add: wsClose_last[OF r assms(2)])
qed

lemma awHeap_releasePresence:
  assumes "rooms s roomId = Some room"
  shows "awHeap (releasePresence roomId ws s) =
     (case awHeap s (awareness room) of
        None \<Rightarrow> awHeap s
      | Some a \<Rightarrow> (awHeap s)(awareness room \<mapsto> a\<lparr>aw_states := (aw_states a)(ws := None)\<rparr>))"
  using assms by (simp add: releasePresence_def split: option.split)

text \<open>
  Claim C1, as the code has it. The only connection of a room closes and, before the timer
  fires, another connection asks for the room, is admitted by the gateway and is attached.
  The close arms a timer; the attach cancels it, records the new connection and the time,
  and leaves the room with the document, the presence object and the creation time it had.
  The stored documents are untouched, and while the room has no connection no update
  reaches its document, so the feature list read through the room is what it was before
  the close. Two things do change. The presence record of the connection that
  left is released at its close, so the presence state is the one from before with that
  record removed. And when the room had no secret and the new connection supplies one, the
  gateway adopts it, so the secret is the old one only if the room had one or none is
  supplied.
\<close>

theorem reattach_frame:
  assumes room: "rooms s roomId = Some room"
    and last: "connections room = {ws}"
    and req: "requestsRoom cfg req roomId"
    and ok: "truthy (passcode room) \<longrightarrow> passcode room = sanitizePasscode (suppliedSecret req)"
  shows "rooms (detach cfg roomId ws t1 s) roomId
         = Some (room\<lparr>connections := {}, lastActive := t1, cleanupTimer := Some (nextTimer s)\<rparr>)
     \<and> timers (detach cfg roomId ws t1 s) (nextTimer s) = Some (roomId, ROOM_TTL_MS cfg)
     \<and> fst (upgrade cfg req t2 (detach cfg roomId ws t1 s)) = Proceed roomId (wantsReadOnly req)
     \<and> fst (attach roomId ws' t3 (snd (upgrade cfg req t2 (detach cfg roomId ws t1 s)))) = Attached
     \<and> rooms (reattached cfg roomId ws t1 req t2 ws' t3 s) roomId
         = Some \<lparr>doc = doc room, awareness = awareness room, connections = {ws'},
                 createdAt = createdAt room, lastActive = t3,
                 passcode = (if truthy (passcode room) then passcode room
                             else if truthy (sanitizePasscode (suppliedSecret req))
                             then sanitizePasscode (suppliedSecret req) else passcode room),
                 cleanupTimer = None\<rparr>
     \<and> timers (reattached cfg roomId ws t1 req t2 ws' t3 s) (nextTimer s) = None
     \<and> docHeap (reattached cfg roomId ws t1 req t2 ws' t3 s) = docHeap s
     \<and> yDocs (reattached cfg roomId ws t1 req t2 ws' t3 s) = yDocs s
     \<and> map_option doc_features (docHeap (reattached cfg roomId ws t1 req t2 ws' t3 s) (doc room))
         = map_option doc_features (docHeap s (doc room))
     \<and> awHeap (reattached cfg roomId ws t1 req t2 ws' t3 s) = awHeap (releasePresence roomId ws s)
     \<and> map_option aw_states (awHeap (reattached cfg roomId ws t1 req t2 ws' t3 s) (awareness room))
         = map_option (\<lambda>a. (aw_states a)(ws := None)) (awHeap s (awareness room))
     \<and> applyUpdate roomId w fs (detach cfg roomId ws t1 s) = detach cfg roomId ws t1 s
     \<and> applyUpdate roomId w fs (snd (upgrade cfg req t2 (detach cfg roomId ws t1 s)))
         = snd (upgrade cfg req t2 (detach cfg roomId ws t1 s))"
proof -
  let ?s1 = "detach cfg roomId ws t1 s"
  let ?room1 = "room\<lparr>connections := {}, lastActive := t1, cleanupTimer := Some (nextTimer s)\<rparr>"
  let ?pass = "sanitizePasscode (suppliedSecret req)"
  let ?room2 = "if \<not> truthy (passcode room) \<and> truthy ?pass then ?room1\<lparr>passcode := ?pass\<rparr> else ?room1"
  let ?s2 = "snd (upgrade cfg req t2 ?s1)"
  have e: "connections room - {ws} = {}" using last by simp
  note s1 = detach_last[OF room e, of cfg t1]
  have r1: "rooms ?s1 roomId = Some ?room1" by (simp add: s1)
  have t1: "timers ?s1 (nextTimer s) = Some (roomId, ROOM_TTL_MS cfg)" by (simp add: s1)
  have u: "upgrade cfg req t2 ?s1 =
      (Proceed roomId (wantsReadOnly req),
       if \<not> truthy (passcode room) \<and> truthy ?pass
       then ?s1\<lparr>rooms := (rooms ?s1)(roomId \<mapsto> ?room1\<lparr>passcode := ?pass\<rparr>)\<rparr> else ?s1)"
    using ok by (simp add: upgrade_admit[OF req] admit_existing[OF r1])
  have r2: "rooms ?s2 roomId = Some ?room2"
    by (simp add: u r1)
  have f2: "timers ?s2 = timers ?s1" "docHeap ?s2 = docHeap s" "yDocs ?s2 = yDocs s"
    "awHeap ?s2 = awHeap (releasePresence roomId ws s)"
    by (simp_all add: u) (simp_all add: s1)
  note a = attach_Some[OF r2, of ws' t3]
  have c2: "cleanupTimer ?room2 = Some (nextTimer s)" by simp
  have g1: "fst (upgrade cfg req t2 ?s1) = Proceed roomId (wantsReadOnly req)" by (simp add: u)
  have g2: "fst (attach roomId ws' t3 ?s2) = Attached" by (simp only: a fst_conv)
  have g3: "rooms (reattached cfg roomId ws t1 req t2 ws' t3 s) roomId
         = Some \<lparr>doc = doc room, awareness = awareness room, connections = {ws'},
                 createdAt = createdAt room, lastActive = t3,
                 passcode = (if truthy (passcode room) then passcode room
                             else if truthy ?pass then ?pass else passcode room),
                 cleanupTimer = None\<rparr>"
    unfolding reattached_def by (simp only: a snd_conv) simp
  have g4: "timers (reattached cfg roomId ws t1 req t2 ws' t3 s) (nextTimer s) = None"
    unfolding reattached_def by (simp only: a snd_conv c2) simp
  have g5: "docHeap (reattached cfg roomId ws t1 req t2 ws' t3 s) = docHeap s"
    "yDocs (reattached cfg roomId ws t1 req t2 ws' t3 s) = yDocs s"
    "awHeap (reattached cfg roomId ws t1 req t2 ws' t3 s) = awHeap (releasePresence roomId ws s)"
    unfolding reattached_def by (simp_all only: a snd_conv) (simp_all add: f2)
  have g6: "map_option aw_states (awHeap (releasePresence roomId ws s) (awareness room))
         = map_option (\<lambda>a. (aw_states a)(ws := None)) (awHeap s (awareness room))"
    by (simp add: awHeap_releasePresence[OF room] split: option.split)
  have g7: "applyUpdate roomId w fs ?s1 = ?s1" "applyUpdate roomId w fs ?s2 = ?s2"
    by (simp_all add: applyUpdate_def r1 r2)
  from r1 t1 g1 g2 g3 g4 g5 g6 g7 show ?thesis by simp
qed

lemma timerImpliesEmptyD:
  "timerImpliesEmpty cfg s \<Longrightarrow> rooms s roomId = Some room \<Longrightarrow> cleanupTimer room = Some t \<Longrightarrow>
   connections room = {} \<and> timers s t = Some (roomId, ROOM_TTL_MS cfg)"
  unfolding timerImpliesEmpty_def by blast

lemma timersOwnedD:
  "timersOwned s \<Longrightarrow> timers s t = Some (roomId, delay) \<Longrightarrow>
   \<exists>room. rooms s roomId = Some room \<and> cleanupTimer room = Some t"
  unfolding timersOwned_def by blast

lemma timersBelowNextD:
  "timersBelowNext s \<Longrightarrow> timers s t = Some (roomId, delay) \<Longrightarrow> t < nextTimer s"
  unfolding timersBelowNext_def by blast

lemma timersConsistent_initial: "timersConsistent cfg initial"
  by (simp add: timersConsistent_def timerImpliesEmpty_def timersOwned_def timersBelowNext_def initial_def)

lemma timersConsistent_same:
  assumes "timersConsistent cfg s" "rooms s' = rooms s" "timers s' = timers s" "nextTimer s' = nextTimer s"
  shows "timersConsistent cfg s'"
  using assms
  by (simp add: timersConsistent_def timerImpliesEmpty_def timersOwned_def timersBelowNext_def)

text \<open>One room is replaced by a context with the same timer and no more connections.\<close>

lemma timersConsistent_update:
  assumes inv: "timersConsistent cfg s" and room: "rooms s roomId = Some room"
    and r: "rooms s' = (rooms s)(roomId \<mapsto> room')"
    and same: "cleanupTimer room' = cleanupTimer room" "connections room' \<subseteq> connections room"
    and t: "timers s' = timers s" "nextTimer s' = nextTimer s"
  shows "timersConsistent cfg s'"
proof -
  from inv have i1: "timerImpliesEmpty cfg s" and i2: "timersOwned s" and i3: "timersBelowNext s"
    by (simp_all add: timersConsistent_def)
  have "timerImpliesEmpty cfg s'"
    unfolding timerImpliesEmpty_def
  proof (intro allI impI)
    fix rid ro t assume a: "rooms s' rid = Some ro" "cleanupTimer ro = Some t"
    show "connections ro = {} \<and> timers s' t = Some (rid, ROOM_TTL_MS cfg)"
    proof (cases "rid = roomId")
      case True
      with a r have "ro = room'" by simp
      with a same have "cleanupTimer room = Some t" by simp
      from timerImpliesEmptyD[OF i1 room this] same \<open>ro = room'\<close> True t show ?thesis by auto
    next
      case False
      with a r have "rooms s rid = Some ro" by simp
      from timerImpliesEmptyD[OF i1 this a(2)] t show ?thesis by simp
    qed
  qed
  moreover have "timersOwned s'"
    unfolding timersOwned_def
  proof (intro allI impI)
    fix t rid delay assume "timers s' t = Some (rid, delay)"
    with t have "timers s t = Some (rid, delay)" by simp
    from timersOwnedD[OF i2 this] obtain ro where ro: "rooms s rid = Some ro" "cleanupTimer ro = Some t"
      by blast
    show "\<exists>room. rooms s' rid = Some room \<and> cleanupTimer room = Some t"
    proof (cases "rid = roomId")
      case True
      with ro room have "ro = room" by simp
      with ro same r True show ?thesis by simp
    next
      case False
      with ro r show ?thesis by simp
    qed
  qed
  moreover have "timersBelowNext s'"
    using i3 t by (simp add: timersBelowNext_def)
  ultimately show ?thesis by (simp add: timersConsistent_def)
qed

lemma timersConsistent_newRoom:
  assumes inv: "timersConsistent cfg s" and new: "rooms s roomId = None"
    and r: "rooms s' = (rooms s)(roomId \<mapsto> c)" "cleanupTimer c = None"
    and t: "timers s' = timers s" "nextTimer s' = nextTimer s"
  shows "timersConsistent cfg s'"
proof -
  from inv have i1: "timerImpliesEmpty cfg s" and i2: "timersOwned s" and i3: "timersBelowNext s"
    by (simp_all add: timersConsistent_def)
  have "timerImpliesEmpty cfg s'"
    unfolding timerImpliesEmpty_def
  proof (intro allI impI)
    fix rid ro t assume a: "rooms s' rid = Some ro" "cleanupTimer ro = Some t"
    with r have "rid \<noteq> roomId" by auto
    with a r have "rooms s rid = Some ro" by simp
    from timerImpliesEmptyD[OF i1 this a(2)] t
    show "connections ro = {} \<and> timers s' t = Some (rid, ROOM_TTL_MS cfg)" by simp
  qed
  moreover have "timersOwned s'"
    unfolding timersOwned_def
  proof (intro allI impI)
    fix t rid delay assume "timers s' t = Some (rid, delay)"
    with t have "timers s t = Some (rid, delay)" by simp
    from timersOwnedD[OF i2 this] obtain ro where ro: "rooms s rid = Some ro" "cleanupTimer ro = Some t"
      by blast
    with new have "rid \<noteq> roomId" by auto
    with ro r show "\<exists>room. rooms s' rid = Some room \<and> cleanupTimer room = Some t" by simp
  qed
  moreover have "timersBelowNext s'"
    using i3 t by (simp add: timersBelowNext_def)
  ultimately show ?thesis by (simp add: timersConsistent_def)
qed

text \<open>Attach: the room's timer, if any, is cleared and forgotten.\<close>

lemma timersConsistent_cancel:
  assumes inv: "timersConsistent cfg s" and room: "rooms s roomId = Some room"
    and r: "rooms s' = (rooms s)(roomId \<mapsto> room')" "cleanupTimer room' = None"
    and t: "timers s' = (case cleanupTimer room of Some t \<Rightarrow> (timers s)(t := None) | None \<Rightarrow> timers s)"
      "nextTimer s' = nextTimer s"
  shows "timersConsistent cfg s'"
proof -
  from inv have i1: "timerImpliesEmpty cfg s" and i2: "timersOwned s" and i3: "timersBelowNext s"
    by (simp_all add: timersConsistent_def)
  have keep: "timers s' t' = timers s t'" if "cleanupTimer room \<noteq> Some t'" for t'
    using that t(1) by (cases "cleanupTimer room") auto
  have sub: "timers s t' = Some x" if "timers s' t' = Some x" for t' x
    using that t(1) by (cases "cleanupTimer room") (auto split: if_splits)
  have "timerImpliesEmpty cfg s'"
    unfolding timerImpliesEmpty_def
  proof (intro allI impI)
    fix rid ro t' assume a: "rooms s' rid = Some ro" "cleanupTimer ro = Some t'"
    with r have ne: "rid \<noteq> roomId" by auto
    with a r have ro: "rooms s rid = Some ro" by simp
    note d = timerImpliesEmptyD[OF i1 ro a(2)]
    have "cleanupTimer room \<noteq> Some t'"
    proof
      assume "cleanupTimer room = Some t'"
      from timerImpliesEmptyD[OF i1 room this] d ne show False by simp
    qed
    from keep[OF this] d show "connections ro = {} \<and> timers s' t' = Some (rid, ROOM_TTL_MS cfg)"
      by simp
  qed
  moreover have "timersOwned s'"
    unfolding timersOwned_def
  proof (intro allI impI)
    fix t' rid delay assume a: "timers s' t' = Some (rid, delay)"
    from timersOwnedD[OF i2 sub[OF a]] obtain ro where ro: "rooms s rid = Some ro" "cleanupTimer ro = Some t'"
      by blast
    have "rid \<noteq> roomId"
    proof
      assume "rid = roomId"
      with ro room have "cleanupTimer room = Some t'" by simp
      with t(1) have "timers s' t' = None" by simp
      with a show False by simp
    qed
    with ro r show "\<exists>room. rooms s' rid = Some room \<and> cleanupTimer room = Some t'" by simp
  qed
  moreover have "timersBelowNext s'"
    unfolding timersBelowNext_def
  proof (intro allI impI)
    fix t' rid delay assume a: "timers s' t' = Some (rid, delay)"
    from timersBelowNextD[OF i3 sub[OF a]] t(2) show "t' < nextTimer s'" by simp
  qed
  ultimately show ?thesis by (simp add: timersConsistent_def)
qed

text \<open>Detach of the last connection: the previous timer, if any, is cleared and a new one armed.\<close>

lemma timersConsistent_arm:
  assumes inv: "timersConsistent cfg s" and room: "rooms s roomId = Some room"
    and r: "rooms s' = (rooms s)(roomId \<mapsto> room')" "cleanupTimer room' = Some (nextTimer s)"
      "connections room' = {}"
    and t: "timers s' = (case cleanupTimer room of Some t \<Rightarrow> (timers s)(t := None) | None \<Rightarrow> timers s)
                          (nextTimer s \<mapsto> (roomId, ROOM_TTL_MS cfg))"
      "nextTimer s' = Suc (nextTimer s)"
  shows "timersConsistent cfg s'"
proof -
  from inv have i1: "timerImpliesEmpty cfg s" and i2: "timersOwned s" and i3: "timersBelowNext s"
    by (simp_all add: timersConsistent_def)
  have fresh: "timers s (nextTimer s) = None"
  proof (cases "timers s (nextTimer s)")
    case (Some x)
    then obtain a b where "timers s (nextTimer s) = Some (a, b)" by (cases x) simp
    from timersBelowNextD[OF i3 this] show ?thesis by simp
  qed simp
  have keep: "timers s' t' = timers s t'" if "cleanupTimer room \<noteq> Some t'" "t' \<noteq> nextTimer s" for t'
    using that t(1) by (cases "cleanupTimer room") auto
  have sub: "timers s t' = Some x" if "timers s' t' = Some x" "t' \<noteq> nextTimer s" for t' x
    using that t(1) by (cases "cleanupTimer room") (auto split: if_splits)
  have "timerImpliesEmpty cfg s'"
    unfolding timerImpliesEmpty_def
  proof (intro allI impI)
    fix rid ro t' assume a: "rooms s' rid = Some ro" "cleanupTimer ro = Some t'"
    show "connections ro = {} \<and> timers s' t' = Some (rid, ROOM_TTL_MS cfg)"
    proof (cases "rid = roomId")
      case True
      with a r have "ro = room'" by simp
      with a r True t(1) show ?thesis by simp
    next
      case False
      with a r have ro: "rooms s rid = Some ro" by simp
      note d = timerImpliesEmptyD[OF i1 ro a(2)]
      have n1: "cleanupTimer room \<noteq> Some t'"
      proof
        assume "cleanupTimer room = Some t'"
        from timerImpliesEmptyD[OF i1 room this] d False show False by simp
      qed
      have n2: "t' \<noteq> nextTimer s" using d fresh by auto
      from keep[OF n1 n2] d show ?thesis by simp
    qed
  qed
  moreover have "timersOwned s'"
    unfolding timersOwned_def
  proof (intro allI impI)
    fix t' rid delay assume a: "timers s' t' = Some (rid, delay)"
    show "\<exists>room. rooms s' rid = Some room \<and> cleanupTimer room = Some t'"
    proof (cases "t' = nextTimer s")
      case True
      with a t(1) have "rid = roomId" by simp
      with r True show ?thesis by simp
    next
      case False
      from timersOwnedD[OF i2 sub[OF a False]] obtain ro
        where ro: "rooms s rid = Some ro" "cleanupTimer ro = Some t'" by blast
      have "rid \<noteq> roomId"
      proof
        assume "rid = roomId"
        with ro room have "cleanupTimer room = Some t'" by simp
        with t(1) False have "timers s' t' = None" by simp
        with a show False by simp
      qed
      with ro r show ?thesis by simp
    qed
  qed
  moreover have "timersBelowNext s'"
    unfolding timersBelowNext_def
  proof (intro allI impI)
    fix t' rid delay assume a: "timers s' t' = Some (rid, delay)"
    show "t' < nextTimer s'"
    proof (cases "t' = nextTimer s")
      case True
      with t(2) show ?thesis by simp
    next
      case False
      from timersBelowNextD[OF i3 sub[OF a False]] t(2) show ?thesis by simp
    qed
  qed
  ultimately show ?thesis by (simp add: timersConsistent_def)
qed

text \<open>A timer fires: it leaves the queue and its room leaves the registry.\<close>

lemma timersConsistent_fire:
  assumes inv: "timersConsistent cfg s" and tm: "timers s t = Some (roomId, delay)"
    and r: "rooms s' = (rooms s)(roomId := None)"
    and t: "timers s' = (timers s)(t := None)" "nextTimer s' = nextTimer s"
  shows "timersConsistent cfg s'"
proof -
  from inv have i1: "timerImpliesEmpty cfg s" and i2: "timersOwned s" and i3: "timersBelowNext s"
    by (simp_all add: timersConsistent_def)
  from timersOwnedD[OF i2 tm] obtain room where room: "rooms s roomId = Some room" "cleanupTimer room = Some t"
    by blast
  have "timerImpliesEmpty cfg s'"
    unfolding timerImpliesEmpty_def
  proof (intro allI impI)
    fix rid ro t' assume a: "rooms s' rid = Some ro" "cleanupTimer ro = Some t'"
    with r have ne: "rid \<noteq> roomId" by (auto split: if_splits)
    with a r have ro: "rooms s rid = Some ro" by simp
    note d = timerImpliesEmptyD[OF i1 ro a(2)]
    have "t' \<noteq> t" using d tm ne by auto
    with d t show "connections ro = {} \<and> timers s' t' = Some (rid, ROOM_TTL_MS cfg)" by simp
  qed
  moreover have "timersOwned s'"
    unfolding timersOwned_def
  proof (intro allI impI)
    fix t' rid d' assume a: "timers s' t' = Some (rid, d')"
    with t have ne: "t' \<noteq> t" and old: "timers s t' = Some (rid, d')" by (auto split: if_splits)
    from timersOwnedD[OF i2 old] obtain ro where ro: "rooms s rid = Some ro" "cleanupTimer ro = Some t'"
      by blast
    have "rid \<noteq> roomId" using ro room ne by auto
    with ro r show "\<exists>room. rooms s' rid = Some room \<and> cleanupTimer room = Some t'" by simp
  qed
  moreover have "timersBelowNext s'"
    unfolding timersBelowNext_def
  proof (intro allI impI)
    fix t' rid d' assume a: "timers s' t' = Some (rid, d')"
    with t have "timers s t' = Some (rid, d')" by (auto split: if_splits)
    from timersBelowNextD[OF i3 this] t(2) show "t' < nextTimer s'" by simp
  qed
  ultimately show ?thesis by (simp add: timersConsistent_def)
qed

lemma timersConsistent_admit:
  assumes inv: "timersConsistent cfg s"
  shows "timersConsistent cfg (snd (admit cfg req roomId pass ro ip now s))"
proof (cases "rooms s roomId")
  case None
  show ?thesis
  proof (cases "now - lastCreation s ip < ROOM_CREATION_THROTTLE_MS cfg")
    case True
    have "snd (admit cfg req roomId pass ro ip now s) = snd (abortUpgrade req 429 ''Rate Limit'' s)"
      using None True by (simp add: admit_def canCreateRoom_False)
    then show ?thesis
      using inv by (auto intro: timersConsistent_same)
  next
    case False
    note a = admit_new_allowed[OF None False, of req pass ro]
    from a(2) obtain c where c: "rooms (snd (admit cfg req roomId pass ro ip now s)) = (rooms s)(roomId \<mapsto> c)"
      "cleanupTimer c = None" by auto
    have t: "timers (snd (admit cfg req roomId pass ro ip now s)) = timers s"
      "nextTimer (snd (admit cfg req roomId pass ro ip now s)) = nextTimer s"
      using None False by (simp_all add: admit_def canCreateRoom_True)
    show ?thesis by (rule timersConsistent_newRoom[OF inv None c t])
  qed
next
  case (Some room)
  have "timersConsistent cfg (s\<lparr>rooms := (rooms s)(roomId \<mapsto> room\<lparr>passcode := pass\<rparr>)\<rparr>)"
    by (rule timersConsistent_update[OF inv Some, where room' = "room\<lparr>passcode := pass\<rparr>"]) simp_all
  with inv show ?thesis
    by (simp add: admit_existing[OF Some])
qed

lemma timersConsistent_upgrade:
  assumes inv: "timersConsistent cfg s"
  shows "timersConsistent cfg (snd (upgrade cfg req now s))"
proof -
  have ab: "timersConsistent cfg (snd (abortUpgrade req c m s'))" if "timersConsistent cfg s'" for c m s'
    using that by (auto intro: timersConsistent_same)
  have lw: "timersConsistent cfg (logWarn m s)" for m
    using inv by (auto intro: timersConsistent_same)
  show ?thesis
    using inv ab lw timersConsistent_admit[OF inv]
    by (simp add: upgrade_def Let_def split: option.split)
qed

lemma timersConsistent_attach:
  assumes inv: "timersConsistent cfg s"
  shows "timersConsistent cfg (snd (attach roomId ws now s))"
proof (cases "rooms s roomId")
  case None
  with inv show ?thesis by (simp add: attach_missing)
next
  case (Some room)
  show ?thesis
    by (rule timersConsistent_cancel[OF inv Some, where room' =
          "room\<lparr>connections := insert ws (connections room), lastActive := now, cleanupTimer := None\<rparr>"])
       (simp_all add: attach_Some[OF Some])
qed

lemma timersConsistent_wsClose:
  assumes inv: "timersConsistent cfg s"
  shows "timersConsistent cfg (wsClose cfg roomId ws now s)"
proof (cases "rooms s roomId")
  case None
  with inv show ?thesis by (simp add: wsClose_def)
next
  case (Some room)
  show ?thesis
  proof (cases "connections room - {ws} = {}")
    case True
    show ?thesis
      by (rule timersConsistent_arm[OF inv Some, where room' =
            "room\<lparr>connections := {}, lastActive := now, cleanupTimer := Some (nextTimer s)\<rparr>"])
         (simp_all add: wsClose_last[OF Some True])
  next
    case False
    show ?thesis
      by (rule timersConsistent_update[OF inv Some, where room' =
            "room\<lparr>connections := connections room - {ws}, lastActive := now\<rparr>"])
         (auto simp: wsClose_not_last[OF Some False])
  qed
qed

lemma nextTimer_cleanupRoom: "nextTimer (cleanupRoom a d rid s) = nextTimer s"
  by (cases "rooms s rid") (auto simp: cleanupRoom_def Let_def)

lemma timersConsistent_timerFired:
  assumes inv: "timersConsistent cfg s"
  shows "timersConsistent cfg (timerFired awThrows docThrows t s)"
proof (cases "timers s t")
  case None
  with inv show ?thesis by (simp add: timerFired_def)
next
  case (Some x)
  obtain roomId delay where x: "x = (roomId, delay)" by (cases x)
  with Some have tm: "timers s t = Some (roomId, delay)" by simp
  have eq: "timerFired awThrows docThrows t s = cleanupRoom awThrows docThrows roomId (clearTimeout t s)"
    using tm by (simp add: timerFired_def)
  show ?thesis
    by (rule timersConsistent_fire[OF inv tm])
       (simp_all add: eq rooms_cleanupRoom timers_cleanupRoom nextTimer_cleanupRoom clearTimeout_def)
qed

lemma reachable_timersConsistent: "reachable cfg s \<Longrightarrow> timersConsistent cfg s"
proof (induction rule: reachable.induct)
  case (synced s roomId ws fs)
  then show ?case by (auto intro: timersConsistent_same)
next
  case (published s roomId ws st)
  then show ?case by (auto intro: timersConsistent_same)
next
  case (released s roomId ws)
  then show ?case by (auto intro: timersConsistent_same)
qed (simp_all add: timersConsistent_initial timersConsistent_upgrade timersConsistent_attach
        timersConsistent_wsClose timersConsistent_timerFired)

lemma attached1_eq:
  "attached1 = created1\<lparr>rooms := [''abc123'' \<mapsto> \<lparr>doc = 0, awareness = 1, connections = {5},
       createdAt = 1000000, lastActive = 1000100, passcode = None, cleanupTimer = None\<rparr>]\<rparr>"
  by (simp add: attached1_def attach_def created1_eq)

lemma detached1_eq:
  "detached1 = created1\<lparr>rooms := [''abc123'' \<mapsto> \<lparr>doc = 0, awareness = 1, connections = {},
       createdAt = 1000000, lastActive = 1000200, passcode = None, cleanupTimer = Some 0\<rparr>],
     timers := [0 \<mapsto> (''abc123'', 3600000)], nextTimer := 1\<rparr>"
  by (simp add: detached1_def wsClose_def attached1_eq created1_eq scheduleCleanup_def setTimeout_def
      cfg0_def Let_def)

lemma reachable_created1: "reachable cfg0 created1"
  unfolding created1_def by (intro reachable.upgraded reachable.start)

lemma reachable_attached1: "reachable cfg0 attached1"
  unfolding attached1_def by (intro reachable.attached reachable_created1)

lemma reachable_detached1: "reachable cfg0 detached1"
  unfolding detached1_def by (intro reachable.closed reachable_attached1)

subsection \<open>Timers and connections in every reachable state\<close>

text \<open>
  Claim C4, as the code has it. In every state the handlers can produce from the initial
  one, in any order: a room whose context records a timer has no connection, and that
  timer is pending for this room with the configured delay; every pending timer is the one
  recorded by a registered room without connections; a detach that leaves a room without
  connections leaves it with a timer; a firing timer removes its room from the registry in
  the same step. (The converse fails: a room just created by the gateway has neither a
  connection nor a timer.)
\<close>

theorem registry_timer_invariant:
  assumes "reachable cfg s"
  shows "(\<forall>roomId room t. rooms s roomId = Some room \<longrightarrow> cleanupTimer room = Some t \<longrightarrow>
            connections room = {} \<and> timers s t = Some (roomId, ROOM_TTL_MS cfg))
     \<and> (\<forall>t roomId delay. timers s t = Some (roomId, delay) \<longrightarrow>
            (\<exists>room. rooms s roomId = Some room \<and> cleanupTimer room = Some t \<and> connections room = {}))
     \<and> (\<forall>roomId ws now room. rooms (wsClose cfg roomId ws now s) roomId = Some room \<longrightarrow>
            connections room = {} \<longrightarrow> cleanupTimer room \<noteq> None)
     \<and> (\<forall>t roomId delay awThrows docThrows. timers s t = Some (roomId, delay) \<longrightarrow>
            rooms (timerFired awThrows docThrows t s) roomId = None)"
proof -
  from reachable_timersConsistent[OF assms]
  have i1: "timerImpliesEmpty cfg s" and i2: "timersOwned s"
    by (simp_all add: timersConsistent_def)
  show ?thesis
  proof (intro conjI allI impI)
    fix roomId room t assume "rooms s roomId = Some room" "cleanupTimer room = Some t"
    from timerImpliesEmptyD[OF i1 this]
    show "connections room = {}" "timers s t = Some (roomId, ROOM_TTL_MS cfg)" by simp_all
  next
    fix t roomId delay assume "timers s t = Some (roomId, delay)"
    from timersOwnedD[OF i2 this] obtain room where r: "rooms s roomId = Some room" "cleanupTimer room = Some t"
      by blast
    from timerImpliesEmptyD[OF i1 r] r
    show "\<exists>room. rooms s roomId = Some room \<and> cleanupTimer room = Some t \<and> connections room = {}"
      by blast
  next
    fix roomId ws now room
    assume a: "rooms (wsClose cfg roomId ws now s) roomId = Some room" and e: "connections room = {}"
    show "cleanupTimer room \<noteq> None"
    proof (cases "rooms s roomId")
      case None
      with a show ?thesis by (simp add: wsClose_def)
    next
      case (Some room0)
      show ?thesis
      proof (cases "connections room0 - {ws} = {}")
        case True
        from a show ?thesis by (auto simp: wsClose_last[OF Some True])
      next
        case False
        from a e False show ?thesis by (auto simp: wsClose_not_last[OF Some False])
      qed
    qed
  next
    fix t roomId delay awThrows docThrows assume "timers s t = Some (roomId, delay)"
    then show "rooms (timerFired awThrows docThrows t s) roomId = None"
      by (simp add: timerFired_rooms)
  qed
qed

theorem registry_timer_invariant_witness:
  "reachable cfg0 detached1
   \<and> rooms detached1 ''abc123'' = Some \<lparr>doc = 0, awareness = 1, connections = {},
       createdAt = 1000000, lastActive = 1000200, passcode = None, cleanupTimer = Some 0\<rparr>
   \<and> timers detached1 0 = Some (''abc123'', ROOM_TTL_MS cfg0)
   \<and> rooms (timerFired False False 0 detached1) ''abc123'' = None
   \<and> rooms (wsClose cfg0 ''abc123'' 5 1000200 attached1) ''abc123'' \<noteq> None
   \<and> connections (the (rooms (wsClose cfg0 ''abc123'' 5 1000200 attached1) ''abc123'')) = {}
   \<and> cleanupTimer (the (rooms (wsClose cfg0 ''abc123'' 5 1000200 attached1) ''abc123'')) \<noteq> None"
proof -
  have r: "rooms detached1 ''abc123'' = Some \<lparr>doc = 0, awareness = 1, connections = {},
       createdAt = 1000000, lastActive = 1000200, passcode = None, cleanupTimer = Some 0\<rparr>"
    by (simp add: detached1_eq)
  have t: "timers detached1 0 = Some (''abc123'', 3600000)" by (simp add: detached1_eq)
  have ttl: "ROOM_TTL_MS cfg0 = 3600000" by (simp add: cfg0_def)
  have d: "wsClose cfg0 ''abc123'' 5 1000200 attached1 = detached1" by (simp add: detached1_def)
  from registry_timer_invariant[OF reachable_detached1] t
  have f: "rooms (timerFired False False 0 detached1) ''abc123'' = None" by blast
  from registry_timer_invariant[OF reachable_attached1]
  have "rooms (wsClose cfg0 ''abc123'' 5 1000200 attached1) ''abc123'' = Some room \<longrightarrow>
        connections room = {} \<longrightarrow> cleanupTimer room \<noteq> None" for room
    by blast
  from this[unfolded d] r
  have c: "cleanupTimer (the (rooms detached1 ''abc123'')) \<noteq> None"
    by simp
  from reachable_detached1 r t f c show ?thesis by (simp add: d ttl)
qed

theorem registry_timer_invariant_counterexample:
  "reachable cfg0 created1
   \<and> rooms created1 ''abc123'' \<noteq> None
   \<and> connections (the (rooms created1 ''abc123'')) = {}
   \<and> cleanupTimer (the (rooms created1 ''abc123'')) = None"
  using reachable_created1 by (simp add: created1_eq)

lemma present1_eq:
  "present1 = attached1\<lparr>
     docHeap := [0 \<mapsto> \<lparr>doc_features = [\<lparr>fid = ''f1'', fkind = KLine, coords = [(0, 0), (1000000, 1000000)]\<rparr>],
                          doc_awareness = Some 1, doc_destroyed = False\<rparr>],
     awHeap := [1 \<mapsto> \<lparr>aw_states = [5 \<mapsto> ''alice''], aw_destroyed = False\<rparr>]\<rparr>"
  by (simp add: present1_def applyUpdate_def publishPresence_def attached1_eq created1_eq)

lemma present1_rooms:
  "rooms present1 ''abc123'' = Some \<lparr>doc = 0, awareness = 1, connections = {5},
       createdAt = 1000000, lastActive = 1000100, passcode = None, cleanupTimer = None\<rparr>"
  by (simp add: present1_eq attached1_eq)

lemma released1_eq:
  "releasePresence ''abc123'' 5 present1
      = present1\<lparr>awHeap := [1 \<mapsto> \<lparr>aw_states = Map.empty, aw_destroyed = False\<rparr>]\<rparr>"
  by (simp add: releasePresence_def present1_rooms) (simp add: present1_eq)

lemma departed1_eq:
  "detach cfg0 ''abc123'' 5 1000200 present1 =
     present1\<lparr>awHeap := [1 \<mapsto> \<lparr>aw_states = Map.empty, aw_destroyed = False\<rparr>],
       timers := [0 \<mapsto> (''abc123'', 3600000)], nextTimer := Suc 0,
       rooms := [''abc123'' \<mapsto> \<lparr>doc = 0, awareness = 1, connections = {},
          createdAt = 1000000, lastActive = 1000200, passcode = None, cleanupTimer = Some 0\<rparr>]\<rparr>"
proof -
  have e: "connections \<lparr>doc = 0, awareness = 1, connections = {5::nat},
       createdAt = 1000000, lastActive = 1000100, passcode = None, cleanupTimer = None\<rparr> - {5} = {}"
    by simp
  note a = released1_eq
  have n: "nextTimer present1 = 0" "timers present1 = Map.empty"
    "rooms present1 = [''abc123'' \<mapsto> \<lparr>doc = 0, awareness = 1, connections = {5},
       createdAt = 1000000, lastActive = 1000100, passcode = None, cleanupTimer = None\<rparr>]"
    by (simp_all add: present1_eq attached1_eq created1_eq)
  have ttl: "ROOM_TTL_MS cfg0 = 3600000" by (simp add: cfg0_def)
  show ?thesis
    by (simp add: detach_last[OF present1_rooms e] a n ttl)
qed

lemma rejoined1_eq:
  "rejoined1 =
     present1\<lparr>awHeap := [1 \<mapsto> \<lparr>aw_states = Map.empty, aw_destroyed = False\<rparr>],
       timers := Map.empty, nextTimer := Suc 0,
       rooms := [''abc123'' \<mapsto> \<lparr>doc = 0, awareness = 1, connections = {6},
          createdAt = 1000000, lastActive = 1000400, passcode = Some ''s3cret'', cleanupTimer = None\<rparr>]\<rparr>"
proof -
  let ?d = "detach cfg0 ''abc123'' 5 1000200 present1"
  have r1: "rooms ?d ''abc123'' = Some \<lparr>doc = 0, awareness = 1, connections = {},
          createdAt = 1000000, lastActive = 1000200, passcode = None, cleanupTimer = Some 0\<rparr>"
    by (simp add: departed1_eq)
  have p: "sanitizePasscode (Some ''s3cret'') = Some ''s3cret''"
    by (simp add: sanitizePasscode_def truthy_def)
  have u: "snd (upgrade cfg0 (joinRequest ''abc123'' (Some ''s3cret'') ''10.0.0.2'') 1000300 ?d)
      = ?d\<lparr>rooms := (rooms ?d)(''abc123'' \<mapsto> \<lparr>doc = 0, awareness = 1, connections = {},
          createdAt = 1000000, lastActive = 1000200, passcode = Some ''s3cret'', cleanupTimer = Some 0\<rparr>)\<rparr>"
    by (simp add: upgrade_admit[OF requestsRoom_abc123] admit_existing[OF r1] p truthy_def)
  let ?u = "snd (upgrade cfg0 (joinRequest ''abc123'' (Some ''s3cret'') ''10.0.0.2'') 1000300 ?d)"
  have r2: "rooms ?u ''abc123'' = Some \<lparr>doc = 0, awareness = 1, connections = {},
          createdAt = 1000000, lastActive = 1000200, passcode = Some ''s3cret'', cleanupTimer = Some 0\<rparr>"
    by (simp add: u)
  have "rejoined1 = snd (attach ''abc123'' 6 1000400 ?u)"
    by (simp add: rejoined1_def reattached_def)
  also have "\<dots> = present1\<lparr>awHeap := [1 \<mapsto> \<lparr>aw_states = Map.empty, aw_destroyed = False\<rparr>],
       timers := Map.empty, nextTimer := Suc 0,
       rooms := [''abc123'' \<mapsto> \<lparr>doc = 0, awareness = 1, connections = {6},
          createdAt = 1000000, lastActive = 1000400, passcode = Some ''s3cret'', cleanupTimer = None\<rparr>]\<rparr>"
    apply (simp only: attach_Some[OF r2] snd_conv)
    apply (simp only: u)
    apply (simp add: departed1_eq)
    done
  finally show ?thesis .
qed

lemma reachable_present1: "reachable cfg0 present1"
  unfolding present1_def by (intro reachable.published reachable.synced reachable_attached1)

theorem reattach_frame_counterexample:
  "reachable cfg0 present1
   \<and> passcode (the (rooms present1 ''abc123'')) = None
   \<and> aw_states (the (awHeap present1 1)) 5 = Some ''alice''
   \<and> connections (the (rooms present1 ''abc123'')) = {5}
   \<and> timers (detach cfg0 ''abc123'' 5 1000200 present1) 0 = Some (''abc123'', 3600000)
   \<and> connections (the (rooms rejoined1 ''abc123'')) = {6}
   \<and> passcode (the (rooms rejoined1 ''abc123'')) = Some ''s3cret''
   \<and> aw_states (the (awHeap rejoined1 1)) 5 = None"
proof -
  have a: "aw_states (the (awHeap present1 1)) 5 = Some ''alice''"
    by (simp add: present1_eq)
  have b: "timers (detach cfg0 ''abc123'' 5 1000200 present1) 0 = Some (''abc123'', 3600000)"
    by (simp add: departed1_eq)
  have c: "passcode (the (rooms rejoined1 ''abc123'')) = Some ''s3cret''"
    "connections (the (rooms rejoined1 ''abc123'')) = {6}"
    "aw_states (the (awHeap rejoined1 1)) 5 = None"
    by (simp_all add: rejoined1_eq)
  from a b c reachable_present1 show ?thesis by (simp add: present1_rooms)
qed

theorem reattach_frame_witness:
  "rooms present1 ''abc123'' = Some \<lparr>doc = 0, awareness = 1, connections = {5},
       createdAt = 1000000, lastActive = 1000100, passcode = None, cleanupTimer = None\<rparr>
   \<and> requestsRoom cfg0 (joinRequest ''abc123'' (Some ''s3cret'') ''10.0.0.2'') ''abc123''
   \<and> timers (detach cfg0 ''abc123'' 5 1000200 present1) (nextTimer present1) = Some (''abc123'', 3600000)
   \<and> fst (upgrade cfg0 (joinRequest ''abc123'' (Some ''s3cret'') ''10.0.0.2'') 1000300
            (detach cfg0 ''abc123'' 5 1000200 present1)) = Proceed ''abc123'' False
   \<and> rooms rejoined1 ''abc123'' = Some \<lparr>doc = 0, awareness = 1, connections = {6},
          createdAt = 1000000, lastActive = 1000400, passcode = Some ''s3cret'', cleanupTimer = None\<rparr>
   \<and> timers rejoined1 (nextTimer present1) = None
   \<and> docHeap rejoined1 = docHeap present1
   \<and> map_option doc_features (docHeap rejoined1 0)
       = Some [\<lparr>fid = ''f1'', fkind = KLine, coords = [(0, 0), (1000000, 1000000)]\<rparr>]
   \<and> map_option aw_states (awHeap rejoined1 1) = Some Map.empty"
proof -
  have c: "connections \<lparr>doc = 0, awareness = 1, connections = {5},
       createdAt = 1000000, lastActive = 1000100, passcode = None, cleanupTimer = None\<rparr> = {5::nat}"
    by simp
  have ok: "truthy (passcode \<lparr>doc = 0, awareness = 1, connections = {5::nat},
       createdAt = 1000000, lastActive = 1000100, passcode = None, cleanupTimer = None\<rparr>) \<longrightarrow>
     passcode \<lparr>doc = 0, awareness = 1, connections = {5::nat},
       createdAt = 1000000, lastActive = 1000100, passcode = None, cleanupTimer = None\<rparr>
       = sanitizePasscode (suppliedSecret (joinRequest ''abc123'' (Some ''s3cret'') ''10.0.0.2''))"
    by (simp add: truthy_def)
  have p: "sanitizePasscode (Some ''s3cret'') = Some ''s3cret''"
    by (simp add: sanitizePasscode_def truthy_def)
  have ttl: "ROOM_TTL_MS cfg0 = 3600000" by (simp add: cfg0_def)
  have h: "docHeap present1 0 = Some \<lparr>doc_features = [\<lparr>fid = ''f1'', fkind = KLine, coords = [(0, 0), (1000000, 1000000)]\<rparr>],
                          doc_awareness = Some 1, doc_destroyed = False\<rparr>"
    "awHeap present1 1 = Some \<lparr>aw_states = [5 \<mapsto> ''alice''], aw_destroyed = False\<rparr>"
    by (simp_all add: present1_eq)
  from reattach_frame[OF present1_rooms c requestsRoom_abc123 ok, of 1000200 1000300 6 1000400]
    present1_rooms requestsRoom_abc123[of "Some ''s3cret''" "''10.0.0.2''"]
  show ?thesis
    by (simp add: rejoined1_def p ttl truthy_def h released1_eq)
qed

theorem passcode_gate_witness:
  "requestsRoom cfg0 (joinRequest ''abc123'' (Some ''wrong'') ''10.0.0.2'') ''abc123''
   \<and> rooms guarded1 ''abc123'' = Some \<lparr>doc = 0, awareness = 1, connections = {}, createdAt = 1000000,
                  lastActive = 1000000, passcode = Some (replicate 128 CHR ''a''), cleanupTimer = None\<rparr>
   \<and> upgrade cfg0 (joinRequest ''abc123'' (Some ''wrong'') ''10.0.0.2'') 1000100 guarded1
       = (UpgradeThenClose 4003 ''passcode-required'', guarded1)
   \<and> upgrade cfg0 (joinRequest ''abc123'' None ''10.0.0.2'') 1000100 guarded1
       = (UpgradeThenClose 4003 ''passcode-required'', guarded1)
   \<and> upgrade cfg0 (joinRequest ''abc123'' (Some (replicate 128 CHR ''a'')) ''10.0.0.2'') 1000100 guarded1
       = (Proceed ''abc123'' False, guarded1)
   \<and> rooms created1 ''abc123'' = Some \<lparr>doc = 0, awareness = 1, connections = {}, createdAt = 1000000,
                  lastActive = 1000000, passcode = None, cleanupTimer = None\<rparr>
   \<and> upgrade cfg0 (joinRequest ''abc123'' None ''10.0.0.2'') 1000100 created1
       = (Proceed ''abc123'' False, created1)"
proof -
  have g: "rooms guarded1 ''abc123'' = Some \<lparr>doc = 0, awareness = 1, connections = {}, createdAt = 1000000,
                  lastActive = 1000000, passcode = Some (replicate 128 CHR ''a''), cleanupTimer = None\<rparr>"
    by (subst guarded1_rooms) (simp only: fun_upd_same)
  have c: "rooms created1 ''abc123'' = Some \<lparr>doc = 0, awareness = 1, connections = {}, createdAt = 1000000,
                  lastActive = 1000000, passcode = None, cleanupTimer = None\<rparr>"
    by (simp add: created1_eq)
  have ne: "replicate 128 CHR ''a'' \<noteq> []" by simp
  have w: "sanitizePasscode (Some ''wrong'') \<noteq> Some (replicate 128 CHR ''a'')"
  proof -
    have "length ''wrong'' \<noteq> length (replicate 128 CHR ''a'')" by simp
    then have "''wrong'' \<noteq> replicate 128 CHR ''a''" by metis
    then show ?thesis by (simp add: sanitizePasscode_Some)
  qed
  have ok: "sanitizePasscode (Some (replicate 128 CHR ''a'')) = Some (replicate 128 CHR ''a'')"
    by (simp add: sanitizePasscode_Some)
  from passcode_gate[OF requestsRoom_abc123 g, of "replicate 128 CHR ''a''" "Some ''wrong''" "''10.0.0.2''"
      1000100 "''wrong''"] w
  have a1: "upgrade cfg0 (joinRequest ''abc123'' (Some ''wrong'') ''10.0.0.2'') 1000100 guarded1
       = (UpgradeThenClose 4003 ''passcode-required'', guarded1)"
    by simp
  from passcode_gate[OF requestsRoom_abc123 g, of "replicate 128 CHR ''a''" None "''10.0.0.2''"
      1000100 "''wrong''"]
  have a2: "upgrade cfg0 (joinRequest ''abc123'' None ''10.0.0.2'') 1000100 guarded1
       = (UpgradeThenClose 4003 ''passcode-required'', guarded1)"
    by simp
  from passcode_gate[OF requestsRoom_abc123 g, of "replicate 128 CHR ''a''"
      "Some (replicate 128 CHR ''a'')" "''10.0.0.2''" 1000100 "''wrong''"] ok
  have a3: "upgrade cfg0 (joinRequest ''abc123'' (Some (replicate 128 CHR ''a'')) ''10.0.0.2'') 1000100 guarded1
       = (Proceed ''abc123'' False, guarded1)"
    by simp
  from passcode_gate[OF requestsRoom_abc123 c, of "replicate 128 CHR ''a''" None "''10.0.0.2''"
      1000100 "''wrong''"]
  have a4: "upgrade cfg0 (joinRequest ''abc123'' None ''10.0.0.2'') 1000100 created1
       = (Proceed ''abc123'' False, created1)"
    by simp
  from a1 a2 a3 a4 g c requestsRoom_abc123[of "Some ''wrong''" "''10.0.0.2''"]
  show ?thesis by (simp only: simp_thms)
qed

subsection \<open>Live objects of registered rooms\<close>

lemma heapConsistent_initial: "heapConsistent initial"
  by (simp add: heapConsistent_def initial_def)

lemma heapConsistent_same:
  assumes "heapConsistent s" "rooms s' = rooms s" "yDocs s' = yDocs s" "docHeap s' = docHeap s"
    "awHeap s' = awHeap s" "nextRef s' = nextRef s"
  shows "heapConsistent s'"
  using assms unfolding heapConsistent_def by simp

text \<open>One room is replaced by a context with the same document and presence object.\<close>

lemma heapConsistent_update:
  assumes inv: "heapConsistent s" and room: "rooms s roomId = Some room"
    and r: "rooms s' = (rooms s)(roomId \<mapsto> room')" "doc room' = doc room" "awareness room' = awareness room"
    and same: "yDocs s' = yDocs s" "docHeap s' = docHeap s" "awHeap s' = awHeap s" "nextRef s' = nextRef s"
  shows "heapConsistent s'"
  unfolding heapConsistent_def
proof (intro conjI allI impI)
  fix rid ro assume a: "rooms s' rid = Some ro"
  have "\<exists>ro0. rooms s rid = Some ro0 \<and> doc ro0 = doc ro \<and> awareness ro0 = awareness ro"
    using a r room by (cases "rid = roomId") auto
  then obtain ro0 where ro0: "rooms s rid = Some ro0" "doc ro0 = doc ro" "awareness ro0 = awareness ro"
    by blast
  from inv ro0(1) have "yDocs s rid = Some (doc ro0)"
    "\<exists>d. docHeap s (doc ro0) = Some d \<and> \<not> doc_destroyed d"
    "\<exists>a. awHeap s (awareness ro0) = Some a \<and> \<not> aw_destroyed a"
    "awareness ro0 < nextRef s"
    unfolding heapConsistent_def by blast+
  with ro0 same show "yDocs s' rid = Some (doc ro)"
    "\<exists>d. docHeap s' (doc ro) = Some d \<and> \<not> doc_destroyed d"
    "\<exists>a. awHeap s' (awareness ro) = Some a \<and> \<not> aw_destroyed a"
    "awareness ro < nextRef s'"
    by simp_all
next
  fix rid d assume "yDocs s' rid = Some d"
  with same have y: "yDocs s rid = Some d" by simp
  with inv have "rooms s rid \<noteq> None" "d < nextRef s" unfolding heapConsistent_def by blast+
  with r same show "rooms s' rid \<noteq> None" "d < nextRef s'" by auto
next
  fix rid rid' d assume "yDocs s' rid = Some d" "yDocs s' rid' = Some d"
  with same have "yDocs s rid = Some d" "yDocs s rid' = Some d" by simp_all
  with inv show "rid = rid'" unfolding heapConsistent_def by blast
next
  fix rid rid' ro ro'
  assume a: "rooms s' rid = Some ro" "rooms s' rid' = Some ro'" "awareness ro = awareness ro'"
  have "\<exists>ro0. rooms s rid = Some ro0 \<and> awareness ro0 = awareness ro"
    using a(1) r room by (cases "rid = roomId") auto
  moreover have "\<exists>ro0. rooms s rid' = Some ro0 \<and> awareness ro0 = awareness ro'"
    using a(2) r room by (cases "rid' = roomId") auto
  ultimately show "rid = rid'"
    using inv a(3) unfolding heapConsistent_def by metis
qed

lemma ensureRoomContext_new:
  assumes "rooms s roomId = None" "yDocs s roomId = None"
  shows "rooms (ensureRoomContext roomId pass t1 t2 s) =
           (rooms s)(roomId \<mapsto> \<lparr>doc = nextRef s, awareness = Suc (nextRef s), connections = {},
              createdAt = t1, lastActive = t2, passcode = pass, cleanupTimer = None\<rparr>)"
    and "yDocs (ensureRoomContext roomId pass t1 t2 s) = (yDocs s)(roomId \<mapsto> nextRef s)"
    and "docHeap (ensureRoomContext roomId pass t1 t2 s) =
           (docHeap s)(nextRef s \<mapsto> \<lparr>doc_features = [], doc_awareness = Some (Suc (nextRef s)),
              doc_destroyed = False\<rparr>)"
    and "awHeap (ensureRoomContext roomId pass t1 t2 s) =
           (awHeap s)(Suc (nextRef s) \<mapsto> \<lparr>aw_states = Map.empty, aw_destroyed = False\<rparr>)"
    and "nextRef (ensureRoomContext roomId pass t1 t2 s) = Suc (Suc (nextRef s))"
  using assms
  by (simp_all add: ensureRoomContext_def getYDoc_def Let_def)

lemma heapConsistent_newRoom:
  assumes inv: "heapConsistent s" and new: "rooms s roomId = None"
    and r: "rooms s' = (rooms s)(roomId \<mapsto> room')" "doc room' = nextRef s" "awareness room' = Suc (nextRef s)"
    and y: "yDocs s' = (yDocs s)(roomId \<mapsto> nextRef s)"
    and h: "docHeap s' = (docHeap s)(nextRef s \<mapsto> d0)" "\<not> doc_destroyed d0"
    and a: "awHeap s' = (awHeap s)(Suc (nextRef s) \<mapsto> a0)" "\<not> aw_destroyed a0"
    and n: "nextRef s' = Suc (Suc (nextRef s))"
  shows "heapConsistent s'"
proof -
  have old: "yDocs s rid = Some (doc ro) \<and> doc ro < nextRef s
             \<and> (\<exists>d. docHeap s (doc ro) = Some d \<and> \<not> doc_destroyed d)
             \<and> (\<exists>a. awHeap s (awareness ro) = Some a \<and> \<not> aw_destroyed a)
             \<and> awareness ro < nextRef s"
    if "rooms s rid = Some ro" for rid ro
    using inv that unfolding heapConsistent_def by blast
  have yold: "rooms s rid \<noteq> None \<and> d < nextRef s" if "yDocs s rid = Some d" for rid d
    using inv that unfolding heapConsistent_def by blast
  have yinj: "rid = rid'" if "yDocs s rid = Some d" "yDocs s rid' = Some d" for rid rid' d
    using inv that unfolding heapConsistent_def by blast
  have ainj: "rid = rid'" if "rooms s rid = Some ro" "rooms s rid' = Some ro'" "awareness ro = awareness ro'"
    for rid rid' ro ro'
    using inv that unfolding heapConsistent_def by blast
  show ?thesis
    unfolding heapConsistent_def
  proof (intro conjI allI impI)
    fix rid ro assume b: "rooms s' rid = Some ro"
    show "yDocs s' rid = Some (doc ro)"
    proof (cases "rid = roomId")
      case True
      with b r y show ?thesis by simp
    next
      case False
      with b r have "rooms s rid = Some ro" by simp
      from old[OF this] y False show ?thesis by simp
    qed
    show "\<exists>d. docHeap s' (doc ro) = Some d \<and> \<not> doc_destroyed d"
    proof (cases "rid = roomId")
      case True
      with b r h show ?thesis by simp
    next
      case False
      with b r have "rooms s rid = Some ro" by simp
      from old[OF this] h show ?thesis by simp
    qed
    show "\<exists>a. awHeap s' (awareness ro) = Some a \<and> \<not> aw_destroyed a"
    proof (cases "rid = roomId")
      case True
      with b r a show ?thesis by simp
    next
      case False
      with b r have "rooms s rid = Some ro" by simp
      from old[OF this] a show ?thesis by simp
    qed
    show "awareness ro < nextRef s'"
    proof (cases "rid = roomId")
      case True
      with b r n show ?thesis by simp
    next
      case False
      with b r have "rooms s rid = Some ro" by simp
      from old[OF this] n show ?thesis by simp
    qed
  next
    fix rid d assume b: "yDocs s' rid = Some d"
    show "rooms s' rid \<noteq> None"
    proof (cases "rid = roomId")
      case True
      with r show ?thesis by simp
    next
      case False
      with b y have "yDocs s rid = Some d" by simp
      from yold[OF this] r False show ?thesis by simp
    qed
    show "d < nextRef s'"
    proof (cases "rid = roomId")
      case True
      with b y n show ?thesis by simp
    next
      case False
      with b y have "yDocs s rid = Some d" by simp
      from yold[OF this] n show ?thesis by simp
    qed
  next
    fix rid rid' d assume b: "yDocs s' rid = Some d" "yDocs s' rid' = Some d"
    show "rid = rid'"
    proof (cases "rid = roomId")
      case True
      with b y have d: "d = nextRef s" by simp
      show ?thesis
      proof (rule ccontr)
        assume ne: "rid \<noteq> rid'"
        with True b(2) y have "yDocs s rid' = Some d" by simp
        from yold[OF this] d show False by simp
      qed
    next
      case False
      with b(1) y have o: "yDocs s rid = Some d" by simp
      show ?thesis
      proof (cases "rid' = roomId")
        case True
        with b(2) y have "d = nextRef s" by simp
        with yold[OF o] show ?thesis by simp
      next
        case False
        with b(2) y have "yDocs s rid' = Some d" by simp
        from yinj[OF o this] show ?thesis .
      qed
    qed
  next
    fix rid rid' ro ro'
    assume b: "rooms s' rid = Some ro" "rooms s' rid' = Some ro'" "awareness ro = awareness ro'"
    show "rid = rid'"
    proof (cases "rid = roomId")
      case True
      with b(1) r have aw: "awareness ro = Suc (nextRef s)" by simp
      show ?thesis
      proof (rule ccontr)
        assume ne: "rid \<noteq> rid'"
        with True b(2) r have "rooms s rid' = Some ro'" by simp
        from old[OF this] aw b(3) show False by simp
      qed
    next
      case False
      with b(1) r have o: "rooms s rid = Some ro" by simp
      show ?thesis
      proof (cases "rid' = roomId")
        case True
        with b(2) r have "awareness ro' = Suc (nextRef s)" by simp
        with old[OF o] b(3) show ?thesis by simp
      next
        case False
        with b(2) r have "rooms s rid' = Some ro'" by simp
        from ainj[OF o this b(3)] show ?thesis .
      qed
    qed
  qed
qed

lemma yDocs_cleanupRoom:
  "rooms s rid = Some room \<Longrightarrow> yDocs (cleanupRoom a d rid s) = (yDocs s)(rid := None)"
  by (auto simp: cleanupRoom_def Let_def)

lemma nextRef_cleanupRoom: "nextRef (cleanupRoom a d rid s) = nextRef s"
  by (cases "rooms s rid") (auto simp: cleanupRoom_def Let_def)

lemma docHeap_destroyDoc_other: "k \<noteq> d \<Longrightarrow> docHeap (destroyDoc d s) k = docHeap s k"
  by (simp add: destroyDoc_def split: option.split)

lemma awHeap_destroyAwareness_other: "k \<noteq> a \<Longrightarrow> awHeap (destroyAwareness a s) k = awHeap s k"
  by (simp add: destroyAwareness_def split: option.split)

lemma docHeap_cleanupRoom:
  "rooms s rid = Some room \<Longrightarrow> k \<noteq> doc room \<Longrightarrow> docHeap (cleanupRoom a d rid s) k = docHeap s k"
  by (simp add: cleanupRoom_def Let_def docHeap_destroyDoc_other logInfo_def)

lemma awHeap_cleanupRoom:
  "rooms s rid = Some room \<Longrightarrow> k \<noteq> awareness room \<Longrightarrow> awHeap (cleanupRoom a d rid s) k = awHeap s k"
  by (simp add: cleanupRoom_def Let_def awHeap_destroyAwareness_other logInfo_def)

text \<open>A room leaves the registry and the document table; only its own objects may change.\<close>

lemma heapConsistent_remove:
  assumes inv: "heapConsistent s" and room: "rooms s roomId = Some room"
    and r: "rooms s' = (rooms s)(roomId := None)"
    and y: "yDocs s' = (yDocs s)(roomId := None)"
    and h: "\<And>k. k \<noteq> doc room \<Longrightarrow> docHeap s' k = docHeap s k"
    and a: "\<And>k. k \<noteq> awareness room \<Longrightarrow> awHeap s' k = awHeap s k"
    and n: "nextRef s' = nextRef s"
  shows "heapConsistent s'"
proof -
  have old: "yDocs s rid = Some (doc ro)
             \<and> (\<exists>d. docHeap s (doc ro) = Some d \<and> \<not> doc_destroyed d)
             \<and> (\<exists>a. awHeap s (awareness ro) = Some a \<and> \<not> aw_destroyed a)
             \<and> awareness ro < nextRef s"
    if "rooms s rid = Some ro" for rid ro
    using inv that unfolding heapConsistent_def by blast
  have yold: "rooms s rid \<noteq> None \<and> d < nextRef s" if "yDocs s rid = Some d" for rid d
    using inv that unfolding heapConsistent_def by blast
  have yinj: "rid = rid'" if "yDocs s rid = Some d" "yDocs s rid' = Some d" for rid rid' d
    using inv that unfolding heapConsistent_def by blast
  have ainj: "rid = rid'" if "rooms s rid = Some ro" "rooms s rid' = Some ro'" "awareness ro = awareness ro'"
    for rid rid' ro ro'
    using inv that unfolding heapConsistent_def by blast
  have keep: "rid \<noteq> roomId \<and> rooms s rid = Some ro" if "rooms s' rid = Some ro" for rid ro
  proof (cases "rid = roomId")
    case True
    with that r show ?thesis by simp
  next
    case False
    with that r show ?thesis by simp
  qed
  have ykeep: "rid \<noteq> roomId \<and> yDocs s rid = Some d" if "yDocs s' rid = Some d" for rid d
  proof (cases "rid = roomId")
    case True
    with that y show ?thesis by simp
  next
    case False
    with that y show ?thesis by simp
  qed
  show ?thesis
    unfolding heapConsistent_def
  proof (intro conjI allI impI)
    fix rid ro assume b: "rooms s' rid = Some ro"
    from keep[OF b] have ne: "rid \<noteq> roomId" and o: "rooms s rid = Some ro" by simp_all
    from old[OF o] y ne show "yDocs s' rid = Some (doc ro)" by simp
    have "doc ro \<noteq> doc room"
    proof
      assume e: "doc ro = doc room"
      from old[OF o] old[OF room] e have "yDocs s rid = Some (doc room)" "yDocs s roomId = Some (doc room)"
        by simp_all
      from yinj[OF this] ne show False by simp
    qed
    from h[OF this] old[OF o] show "\<exists>d. docHeap s' (doc ro) = Some d \<and> \<not> doc_destroyed d" by simp
    have "awareness ro \<noteq> awareness room"
    proof
      assume e: "awareness ro = awareness room"
      from ainj[OF o room e] ne show False by simp
    qed
    from a[OF this] old[OF o] show "\<exists>a. awHeap s' (awareness ro) = Some a \<and> \<not> aw_destroyed a" by simp
    from old[OF o] n show "awareness ro < nextRef s'" by simp
  next
    fix rid d assume b: "yDocs s' rid = Some d"
    from ykeep[OF b] have ne: "rid \<noteq> roomId" and o: "yDocs s rid = Some d" by simp_all
    from yold[OF o] r ne show "rooms s' rid \<noteq> None" by simp
    from yold[OF o] n show "d < nextRef s'" by simp
  next
    fix rid rid' d assume b: "yDocs s' rid = Some d" "yDocs s' rid' = Some d"
    from ykeep[OF b(1)] ykeep[OF b(2)] have "yDocs s rid = Some d" "yDocs s rid' = Some d" by simp_all
    from yinj[OF this] show "rid = rid'" .
  next
    fix rid rid' ro ro'
    assume b: "rooms s' rid = Some ro" "rooms s' rid' = Some ro'" "awareness ro = awareness ro'"
    from keep[OF b(1)] keep[OF b(2)] have "rooms s rid = Some ro" "rooms s rid' = Some ro'" by simp_all
    from ainj[OF this b(3)] show "rid = rid'" .
  qed
qed

lemma heapConsistent_cleanupRoom:
  assumes inv: "heapConsistent s"
  shows "heapConsistent (cleanupRoom awThrows docThrows roomId s)"
proof (cases "rooms s roomId")
  case None
  with inv show ?thesis by (simp add: cleanupRoom_noop)
next
  case (Some room)
  show ?thesis
    by (rule heapConsistent_remove[OF inv Some])
       (simp_all add: rooms_cleanupRoom yDocs_cleanupRoom[OF Some] docHeap_cleanupRoom[OF Some]
          awHeap_cleanupRoom[OF Some] nextRef_cleanupRoom)
qed

lemma heapConsistent_timerFired:
  assumes inv: "heapConsistent s"
  shows "heapConsistent (timerFired awThrows docThrows t s)"
proof (cases "timers s t")
  case None
  with inv show ?thesis by (simp add: timerFired_def)
next
  case (Some x)
  obtain roomId delay where x: "x = (roomId, delay)" by (cases x)
  have c: "heapConsistent (clearTimeout t s)"
    by (rule heapConsistent_same[OF inv]) (simp_all add: clearTimeout_def)
  from heapConsistent_cleanupRoom[OF c] Some x show ?thesis by (simp add: timerFired_def)
qed

lemma heapConsistent_attach:
  assumes inv: "heapConsistent s"
  shows "heapConsistent (snd (attach roomId ws now s))"
proof (cases "rooms s roomId")
  case None
  with inv show ?thesis by (simp add: attach_missing)
next
  case (Some room)
  show ?thesis
    by (rule heapConsistent_update[OF inv Some, where room' =
          "room\<lparr>connections := insert ws (connections room), lastActive := now, cleanupTimer := None\<rparr>"])
       (simp_all add: attach_Some[OF Some])
qed

lemma heapConsistent_wsClose:
  assumes inv: "heapConsistent s"
  shows "heapConsistent (wsClose cfg roomId ws now s)"
proof (cases "rooms s roomId")
  case None
  with inv show ?thesis by (simp add: wsClose_def)
next
  case (Some room)
  show ?thesis
  proof (cases "connections room - {ws} = {}")
    case True
    show ?thesis
      by (rule heapConsistent_update[OF inv Some, where room' =
            "room\<lparr>connections := {}, lastActive := now, cleanupTimer := Some (nextTimer s)\<rparr>"])
         (simp_all add: wsClose_last[OF Some True])
  next
    case False
    show ?thesis
      by (rule heapConsistent_update[OF inv Some, where room' =
            "room\<lparr>connections := connections room - {ws}, lastActive := now\<rparr>"])
         (simp_all add: wsClose_not_last[OF Some False])
  qed
qed

lemma heapConsistent_admit:
  assumes inv: "heapConsistent s"
  shows "heapConsistent (snd (admit cfg req roomId pass ro ip now s))"
proof (cases "rooms s roomId")
  case None
  show ?thesis
  proof (cases "now - lastCreation s ip < ROOM_CREATION_THROTTLE_MS cfg")
    case True
    have "snd (admit cfg req roomId pass ro ip now s) = snd (abortUpgrade req 429 ''Rate Limit'' s)"
      using None True by (simp add: admit_def canCreateRoom_False)
    then show ?thesis
      using inv by (auto intro: heapConsistent_same)
  next
    case False
    let ?s1 = "s\<lparr>roomCreationRate := (roomCreationRate s)(ip \<mapsto> now)\<rparr>"
    let ?s2 = "ensureRoomContext roomId pass now now ?s1"
    have eq: "snd (admit cfg req roomId pass ro ip now s) = logInfo ''created room'' ?s2"
      using None False by (simp add: admit_def canCreateRoom_True)
    have y: "yDocs s roomId = None"
    proof (cases "yDocs s roomId")
      case None
      then show ?thesis .
    next
      case (Some d)
      with inv have "rooms s roomId \<noteq> None" unfolding heapConsistent_def by blast
      with \<open>rooms s roomId = None\<close> show ?thesis by simp
    qed
    have r1: "rooms ?s1 roomId = None" using None by simp
    have y1: "yDocs ?s1 roomId = None" using y by simp
    note e = ensureRoomContext_new[OF r1 y1, of pass now now]
    have "heapConsistent ?s2"
      by (rule heapConsistent_newRoom[OF inv None, where room' =
            "\<lparr>doc = nextRef s, awareness = Suc (nextRef s), connections = {},
              createdAt = now, lastActive = now, passcode = pass, cleanupTimer = None\<rparr>"
            and ?d0.0 = "\<lparr>doc_features = [], doc_awareness = Some (Suc (nextRef s)), doc_destroyed = False\<rparr>"
            and ?a0.0 = "\<lparr>aw_states = Map.empty, aw_destroyed = False\<rparr>"])
         (simp_all add: e)
    then have "heapConsistent (logInfo ''created room'' ?s2)"
      by (rule heapConsistent_same) simp_all
    then show ?thesis by (simp only: eq)
  qed
next
  case (Some room)
  have "heapConsistent (s\<lparr>rooms := (rooms s)(roomId \<mapsto> room\<lparr>passcode := pass\<rparr>)\<rparr>)"
    by (rule heapConsistent_update[OF inv Some, where room' = "room\<lparr>passcode := pass\<rparr>"]) simp_all
  with inv show ?thesis
    by (simp add: admit_existing[OF Some])
qed

lemma heapConsistent_upgrade:
  assumes inv: "heapConsistent s"
  shows "heapConsistent (snd (upgrade cfg req now s))"
proof -
  have ab: "heapConsistent (snd (abortUpgrade req c m s'))" if "heapConsistent s'" for c m s'
    using that by (auto intro: heapConsistent_same)
  have lw: "heapConsistent (logWarn m s)" for m
    using inv by (auto intro: heapConsistent_same)
  show ?thesis
    using inv ab lw heapConsistent_admit[OF inv]
    by (simp add: upgrade_def Let_def split: option.split)
qed

text \<open>The contents of stored objects change; no object appears, disappears or is destroyed.\<close>

lemma heapConsistent_content:
  assumes inv: "heapConsistent s"
    and same: "rooms s' = rooms s" "yDocs s' = yDocs s" "nextRef s' = nextRef s"
    and d: "\<And>r x. docHeap s r = Some x \<Longrightarrow> \<exists>y. docHeap s' r = Some y \<and> doc_destroyed y = doc_destroyed x"
    and a: "\<And>r x. awHeap s r = Some x \<Longrightarrow> \<exists>y. awHeap s' r = Some y \<and> aw_destroyed y = aw_destroyed x"
  shows "heapConsistent s'"
  unfolding heapConsistent_def
proof (intro conjI allI impI)
  fix rid ro assume "rooms s' rid = Some ro"
  with same have o: "rooms s rid = Some ro" by simp
  from inv o have l: "yDocs s rid = Some (doc ro)"
    "\<exists>x. docHeap s (doc ro) = Some x \<and> \<not> doc_destroyed x"
    "\<exists>x. awHeap s (awareness ro) = Some x \<and> \<not> aw_destroyed x"
    "awareness ro < nextRef s"
    unfolding heapConsistent_def by blast+
  from l(1) same show "yDocs s' rid = Some (doc ro)" by simp
  from l(2) obtain x where x: "docHeap s (doc ro) = Some x" "\<not> doc_destroyed x" by blast
  from d[OF x(1)] x(2) show "\<exists>y. docHeap s' (doc ro) = Some y \<and> \<not> doc_destroyed y" by auto
  from l(3) obtain z where z: "awHeap s (awareness ro) = Some z" "\<not> aw_destroyed z" by blast
  from a[OF z(1)] z(2) show "\<exists>y. awHeap s' (awareness ro) = Some y \<and> \<not> aw_destroyed y" by auto
  from l(4) same show "awareness ro < nextRef s'" by simp
next
  fix rid x assume "yDocs s' rid = Some x"
  with same have "yDocs s rid = Some x" by simp
  with inv have "rooms s rid \<noteq> None" "x < nextRef s" unfolding heapConsistent_def by blast+
  with same show "rooms s' rid \<noteq> None" "x < nextRef s'" by simp_all
next
  fix rid rid' x assume "yDocs s' rid = Some x" "yDocs s' rid' = Some x"
  with same have "yDocs s rid = Some x" "yDocs s rid' = Some x" by simp_all
  with inv show "rid = rid'" unfolding heapConsistent_def by blast
next
  fix rid rid' ro ro'
  assume "rooms s' rid = Some ro" "rooms s' rid' = Some ro'" "awareness ro = awareness ro'"
  with same have "rooms s rid = Some ro" "rooms s rid' = Some ro'" "awareness ro = awareness ro'"
    by simp_all
  with inv show "rid = rid'" unfolding heapConsistent_def by blast
qed

lemma heapConsistent_applyUpdate:
  assumes inv: "heapConsistent s"
  shows "heapConsistent (applyUpdate roomId ws fs s)"
proof (rule heapConsistent_content[OF inv])
  fix r x assume "docHeap s r = Some x"
  then show "\<exists>y. docHeap (applyUpdate roomId ws fs s) r = Some y \<and> doc_destroyed y = doc_destroyed x"
    by (auto simp: applyUpdate_def split: option.split)
qed simp_all

lemma heapConsistent_publishPresence:
  assumes inv: "heapConsistent s"
  shows "heapConsistent (publishPresence roomId ws st s)"
proof (rule heapConsistent_content[OF inv])
  fix r x assume "awHeap s r = Some x"
  then show "\<exists>y. awHeap (publishPresence roomId ws st s) r = Some y \<and> aw_destroyed y = aw_destroyed x"
    by (auto simp: publishPresence_def split: option.split)
qed simp_all

lemma heapConsistent_releasePresence:
  assumes inv: "heapConsistent s"
  shows "heapConsistent (releasePresence roomId ws s)"
proof (rule heapConsistent_content[OF inv])
  fix r x assume "awHeap s r = Some x"
  then show "\<exists>y. awHeap (releasePresence roomId ws s) r = Some y \<and> aw_destroyed y = aw_destroyed x"
    by (auto simp: releasePresence_def split: option.split)
qed simp_all

lemma reachable_heapConsistent: "reachable cfg s \<Longrightarrow> heapConsistent s"
  by (induction rule: reachable.induct)
     (simp_all add: heapConsistent_initial heapConsistent_upgrade heapConsistent_attach
        heapConsistent_wsClose heapConsistent_timerFired heapConsistent_applyUpdate
        heapConsistent_publishPresence heapConsistent_releasePresence)

lemma reachable_rooms_live:
  assumes "reachable cfg s" "rooms s roomId = Some room"
  shows "yDocs s roomId = Some (doc room)"
    and "\<exists>d. docHeap s (doc room) = Some d \<and> \<not> doc_destroyed d"
    and "\<exists>a. awHeap s (awareness room) = Some a \<and> \<not> aw_destroyed a"
  using reachable_heapConsistent[OF assms(1)] assms(2) unfolding heapConsistent_def by blast+

subsection \<open>Attach after eviction\<close>

text \<open>
  Claim C5, as the code has it. When the room is no longer in the registry at the time the
  upgrade callback runs (in particular after its timer fired, or after
  \<^verbatim>\<open>cleanupRoom\<close> ran for it), the callback closes the new socket with code 1011
  and leaves the state exactly as it was: no context is created and the connection is
  attached to nothing. Eviction removes the registry entry in the same step that tears the
  room down, so in every state the server can reach a room found in the registry has its
  document in the document table, and its document and presence object are not destroyed.
\<close>

theorem attach_after_eviction:
  "(rooms s roomId = None \<longrightarrow> attach roomId ws now s = (Closed 1011 ''room-missing'', s))
   \<and> (timers s t = Some (roomId, delay) \<longrightarrow>
        rooms (timerFired awThrows docThrows t s) roomId = None
        \<and> attach roomId ws now (timerFired awThrows docThrows t s)
            = (Closed 1011 ''room-missing'', timerFired awThrows docThrows t s))
   \<and> rooms (cleanupRoom awThrows docThrows roomId s) roomId = None
   \<and> attach roomId ws now (cleanupRoom awThrows docThrows roomId s)
        = (Closed 1011 ''room-missing'', cleanupRoom awThrows docThrows roomId s)
   \<and> (reachable cfg s \<longrightarrow> rooms s roomId = Some room \<longrightarrow>
        yDocs s roomId = Some (doc room)
        \<and> (\<exists>d. docHeap s (doc room) = Some d \<and> \<not> doc_destroyed d)
        \<and> (\<exists>a. awHeap s (awareness room) = Some a \<and> \<not> aw_destroyed a))"
proof -
  have live: "yDocs s roomId = Some (doc room)
        \<and> (\<exists>d. docHeap s (doc room) = Some d \<and> \<not> doc_destroyed d)
        \<and> (\<exists>a. awHeap s (awareness room) = Some a \<and> \<not> aw_destroyed a)"
    if "reachable cfg s" "rooms s roomId = Some room"
    using reachable_rooms_live[OF that] by simp
  have gone: "rooms (cleanupRoom awThrows docThrows roomId s) roomId = None"
    by (simp add: rooms_cleanupRoom)
  have fired: "rooms (timerFired awThrows docThrows t s) roomId = None"
    if "timers s t = Some (roomId, delay)"
    using that by (simp add: timerFired_rooms)
  from live gone fired show ?thesis
    by (simp add: attach_missing)
qed

theorem attach_after_eviction_witness:
  "timers detached1 0 = Some (''abc123'', 3600000)
   \<and> rooms (timerFired False False 0 detached1) ''abc123'' = None
   \<and> attach ''abc123'' 6 1000400 (timerFired False False 0 detached1)
        = (Closed 1011 ''room-missing'', timerFired False False 0 detached1)
   \<and> reachable cfg0 detached1
   \<and> rooms detached1 ''abc123'' = Some \<lparr>doc = 0, awareness = 1, connections = {},
         createdAt = 1000000, lastActive = 1000200, passcode = None, cleanupTimer = Some 0\<rparr>
   \<and> yDocs detached1 ''abc123'' = Some 0
   \<and> (\<exists>d. docHeap detached1 0 = Some d \<and> \<not> doc_destroyed d)
   \<and> (\<exists>a. awHeap detached1 1 = Some a \<and> \<not> aw_destroyed a)"
proof -
  have t: "timers detached1 0 = Some (''abc123'', 3600000)" by (simp add: detached1_eq)
  have r: "rooms detached1 ''abc123'' = Some \<lparr>doc = 0, awareness = 1, connections = {},
         createdAt = 1000000, lastActive = 1000200, passcode = None, cleanupTimer = Some 0\<rparr>"
    by (simp add: detached1_eq)
  from attach_after_eviction[of detached1 "''abc123''" 6 1000400 0 3600000 False False cfg0
      "\<lparr>doc = 0, awareness = 1, connections = {},
         createdAt = 1000000, lastActive = 1000200, passcode = None, cleanupTimer = Some 0\<rparr>"]
    t r reachable_detached1
  have a: "rooms (timerFired False False 0 detached1) ''abc123'' = None"
    and b: "attach ''abc123'' 6 1000400 (timerFired False False 0 detached1)
        = (Closed 1011 ''room-missing'', timerFired False False 0 detached1)"
    and c: "yDocs detached1 ''abc123'' = Some 0"
    and d: "\<exists>d. docHeap detached1 0 = Some d \<and> \<not> doc_destroyed d"
    and e: "\<exists>a. awHeap detached1 1 = Some a \<and> \<not> aw_destroyed a"
    by simp_all
  from t a b reachable_detached1 r c d e show ?thesis by (simp only: simp_thms)
qed

theorem attach_after_eviction_counterexample:
  "upgrade cfg0 (joinRequest ''abc123'' None ''10.0.0.2'') 1000300 detached1
     = (Proceed ''abc123'' False, detached1)
   \<and> timers detached1 0 = Some (''abc123'', 3600000)
   \<and> fst (attach ''abc123'' 6 1000400 (timerFired False False 0 detached1)) = Closed 1011 ''room-missing''
   \<and> rooms (snd (attach ''abc123'' 6 1000400 (timerFired False False 0 detached1))) ''abc123'' = None"
proof -
  have u: "upgrade cfg0 (joinRequest ''abc123'' None ''10.0.0.2'') 1000300 detached1
     = (Proceed ''abc123'' False, detached1)"
    apply (simp add: upgrade_admit[OF requestsRoom_abc123])
    apply (simp add: admit_def detached1_eq truthy_def)
    done
  have t: "timers detached1 0 = Some (''abc123'', 3600000)" by (simp add: detached1_eq)
  have r: "rooms (timerFired False False 0 detached1) ''abc123'' = None"
    by (simp add: timerFired_rooms[OF t])
  show ?thesis using u t r by (simp add: attach_missing)
qed

section \<open>Properties of the client\<close>

lemma handleRemove_suppressed: "suppressLocalEventsRef c \<Longrightarrow> handleRemove l c = c"
  by (simp add: handleRemove.simps)

lemma handleRemove_readOnly: "readOnly c \<Longrightarrow> handleRemove l c = c"
  by (simp add: handleRemove.simps)

lemma syncLayers_eq:
  "syncLayers items c =
     (if \<not> hasMap c then c
      else foldl (removeStale items) (foldl upsertLayer c items)
             (map fst (layersRef (foldl upsertLayer c items))))"
  by (simp add: syncLayers.simps removeStale_def mapRemoveLayer_def firePmRemove_def Let_def
      cong: foldl_cong if_cong option.case_cong)

lemma keys_mapSet [simp]: "fst ` set (mapSet k v m) = insert k (fst ` set m)"
proof (cases "k \<in> fst ` set m")
  case True
  have "fst ` set (map (\<lambda>p. if fst p = k then (k, v) else p) m) = fst ` set m"
    by (induction m) auto
  with True show ?thesis by (auto simp: mapSet_def)
next
  case False
  then show ?thesis by (simp add: mapSet_def)
qed

lemma keys_mapDelete [simp]: "fst ` set (mapDelete k m) = fst ` set m - {k}"
  unfolding mapDelete_def by (induction m) auto

lemma mapGet_None_iff: "mapGet k m = None \<longleftrightarrow> k \<notin> fst ` set m"
  by (simp add: mapGet_def map_of_eq_None_iff)

lemma map_of_replace_same:
  "k \<in> fst ` set m \<Longrightarrow> map_of (map (\<lambda>p. if fst p = k then (k, v) else p) m) k = Some v"
  by (induction m) auto

lemma map_of_replace_other:
  "k' \<noteq> k \<Longrightarrow> map_of (map (\<lambda>p. if fst p = k then (k, v) else p) m) k' = map_of m k'"
  by (induction m) auto

lemma mapGet_mapSet_same [simp]: "mapGet k (mapSet k v m) = Some v"
proof (cases "k \<in> fst ` set m")
  case True
  then show ?thesis by (simp add: mapGet_def mapSet_def map_of_replace_same)
next
  case False
  then have "map_of m k = None" by (simp add: map_of_eq_None_iff)
  with False show ?thesis by (simp add: mapGet_def mapSet_def map_add_def)
qed

lemma mapGet_mapSet_other [simp]: "k' \<noteq> k \<Longrightarrow> mapGet k' (mapSet k v m) = mapGet k' m"
  by (auto simp: mapGet_def mapSet_def map_of_replace_other map_add_def split: option.split)

lemma mapGet_mapDelete_other [simp]: "k' \<noteq> k \<Longrightarrow> mapGet k' (mapDelete k m) = mapGet k' m"
  unfolding mapGet_def mapDelete_def
  by (induction m) auto

lemma foldl_preserves:
  assumes "\<And>c x. g (f c x) = g c"
  shows "g (foldl f c xs) = g c"
  by (induction xs arbitrary: c) (simp_all add: assms)

lemma foldl_invariant:
  assumes "P c" "\<And>c x. P c \<Longrightarrow> P (f c x)"
  shows "P (foldl f c xs)"
  using assms(1) by (induction xs arbitrary: c) (simp_all add: assms(2))

lemma docFrame_refl [simp]: "docFrame c c"
  by (simp add: docFrame_def)

lemma docFrame_trans: "docFrame a b \<Longrightarrow> docFrame b c \<Longrightarrow> docFrame a c"
  by (simp add: docFrame_def)

lemma docFrame_upsertLayer: "docFrame c (upsertLayer c f)"
  by (simp add: docFrame_def upsertLayer_def createLayerForFeature_def attachLayerHandlers_def
      detachLayerHandlers_def featureTransactions_def Let_def split: option.split)

lemma docFrame_handleRemoveFeature: "docFrame c (handleRemoveFeature l c)"
  by (simp add: docFrame_def handleRemoveFeature_def selectionObserver_def commit_def applyChange_def
      featureTransactions_def featureChange_def Let_def split: option.split)

lemma layersRef_handleRemoveFeature [simp]: "layersRef (handleRemoveFeature l c) = layersRef c"
  by (simp add: handleRemoveFeature_def selectionObserver_def commit_def applyChange_def
      Let_def split: option.split)

lemma suppress_handleRemoveFeature [simp]:
  "suppressLocalEventsRef (handleRemoveFeature l c) = suppressLocalEventsRef c"
  by (simp add: handleRemoveFeature_def selectionObserver_def commit_def applyChange_def
      Let_def split: option.split)

lemma featureCacheRef_handleRemoveFeature [simp]:
  "featureCacheRef (handleRemoveFeature l c) = featureCacheRef c"
  by (simp add: handleRemoveFeature_def selectionObserver_def commit_def applyChange_def
      Let_def split: option.split)

lemma mapRemoveLayer_suppressed:
  "suppressLocalEventsRef c \<Longrightarrow>
   mapRemoveLayer l c =
     (if lid l \<in> onMap c
      then if echoRemovals c then handleRemoveFeature l (c\<lparr>onMap := onMap c - {lid l}\<rparr>)
           else c\<lparr>onMap := onMap c - {lid l}\<rparr>
      else c)"
  by (simp add: mapRemoveLayer_def firePmRemove_def handleRemove_suppressed Let_def)

lemma docFrame_mapRemoveLayer_suppressed:
  "suppressLocalEventsRef c \<Longrightarrow> docFrame c (mapRemoveLayer l c)"
proof -
  assume s: "suppressLocalEventsRef c"
  have a: "docFrame c (c\<lparr>onMap := onMap c - {lid l}\<rparr>)"
    by (simp add: docFrame_def featureTransactions_def)
  have b: "docFrame (c\<lparr>onMap := onMap c - {lid l}\<rparr>) (handleRemoveFeature l (c\<lparr>onMap := onMap c - {lid l}\<rparr>))"
    by (rule docFrame_handleRemoveFeature)
  show ?thesis
    using a docFrame_trans[OF a b] by (simp add: mapRemoveLayer_suppressed[OF s])
qed

lemma layersRef_mapRemoveLayer_suppressed:
  "suppressLocalEventsRef c \<Longrightarrow> layersRef (mapRemoveLayer l c) = layersRef c"
  by (simp add: mapRemoveLayer_suppressed)

lemma docFrame_removeStale: "docFrame c (removeStale items c i)"
proof -
  let ?c3 = "(detachLayerHandlers i c)\<lparr>suppressLocalEventsRef := True\<rparr>"
  have s: "suppressLocalEventsRef ?c3" by simp
  have a: "docFrame c ?c3"
    by (simp add: docFrame_def detachLayerHandlers_def featureTransactions_def)
  have b: "docFrame c (mapRemoveLayer l ?c3)" for l
    by (rule docFrame_trans[OF a docFrame_mapRemoveLayer_suppressed[OF s]])
  have c: "docFrame c ((mapRemoveLayer l ?c3)\<lparr>suppressLocalEventsRef := False\<rparr>)" for l
    using b[of l] by (simp add: docFrame_def featureTransactions_def)
  have d: "docFrame c (x\<lparr>layersRef := y, featureCacheRef := z\<rparr>)" if "docFrame c x" for x y z
    using that by (simp add: docFrame_def featureTransactions_def)
  show ?thesis
    by (auto simp: removeStale_def Let_def intro!: d c split: option.split)
qed

lemma docFrame_syncLayers: "docFrame c (syncLayers items c)"
proof (cases "hasMap c")
  case False
  then show ?thesis by (simp add: syncLayers_eq)
next
  case True
  let ?c0 = "foldl upsertLayer c items"
  have a: "docFrame c ?c0"
    by (rule foldl_invariant[where P = "docFrame c"])
       (auto intro: docFrame_trans docFrame_upsertLayer)
  have b: "docFrame c (foldl (removeStale items) ?c0 ks)" for ks
    by (rule foldl_invariant[where P = "docFrame c"])
       (auto intro: a docFrame_trans docFrame_removeStale)
  from True b show ?thesis by (simp add: syncLayers_eq)
qed

lemma hasMap_upsertLayer [simp]: "hasMap (upsertLayer c f) = hasMap c"
  using docFrame_upsertLayer[of c f] by (simp add: docFrame_def)

lemma layerKeys_upsertLayer:
  "hasMap c \<Longrightarrow> layerKeys (upsertLayer c f) = insert (fid f) (layerKeys c)"
  by (auto simp: layerKeys_def upsertLayer_def createLayerForFeature_def attachLayerHandlers_def
      detachLayerHandlers_def Let_def mapGet_None_iff split: option.splits)

lemma layerKeys_foldl_upsertLayer:
  "hasMap c \<Longrightarrow> layerKeys (foldl upsertLayer c items) = layerKeys c \<union> fid ` set items"
  by (induction items arbitrary: c) (auto simp: layerKeys_upsertLayer)

lemma layersRef_removeStale:
  "layersRef (removeStale items c i) = (if i \<in> fid ` set items then layersRef c else mapDelete i (layersRef c))"
  by (simp add: removeStale_def Let_def layersRef_mapRemoveLayer_suppressed detachLayerHandlers_def
      split: option.split)

lemma layerKeys_removeStale:
  "layerKeys (removeStale items c i) = (if i \<in> fid ` set items then layerKeys c else layerKeys c - {i})"
  by (simp add: layerKeys_def layersRef_removeStale)

lemma layerKeys_foldl_removeStale:
  "layerKeys (foldl (removeStale items) c ks) = layerKeys c - (set ks - fid ` set items)"
  by (induction ks arbitrary: c) (auto simp: layerKeys_removeStale)

lemma hasMap_syncLayers [simp]: "hasMap (syncLayers items c) = hasMap c"
  using docFrame_syncLayers[of c items] by (simp add: docFrame_def)

lemma layerKeys_syncLayers:
  "hasMap c \<Longrightarrow> layerKeys (syncLayers items c) = fid ` set items"
proof -
  assume m: "hasMap c"
  let ?c0 = "foldl upsertLayer c items"
  have "layerKeys (syncLayers items c) = layerKeys ?c0 - (set (map fst (layersRef ?c0)) - fid ` set items)"
    using m by (simp add: syncLayers_eq layerKeys_foldl_removeStale)
  also have "\<dots> = layerKeys ?c0 \<inter> fid ` set items"
    by (auto simp: layerKeys_def)
  also have "\<dots> = fid ` set items"
    using m by (auto simp: layerKeys_foldl_upsertLayer)
  finally show ?thesis .
qed

text \<open>The layer kept for a feature of the list.\<close>

lemma mapGet_upsertLayer_other:
  "k \<noteq> fid f \<Longrightarrow> mapGet k (layersRef (upsertLayer c f)) = mapGet k (layersRef c)"
  by (simp add: upsertLayer_def createLayerForFeature_def attachLayerHandlers_def
      detachLayerHandlers_def Let_def split: option.split)

lemma mapGet_upsertLayer_new:
  assumes "hasMap c" "fid f \<notin> layerKeys c"
  shows "\<exists>l. mapGet (fid f) (layersRef (upsertLayer c f)) = Some l \<and> layerFor f l"
proof -
  from assms(2) have "mapGet (fid f) (layersRef c) = None"
    by (simp add: mapGet_None_iff layerKeys_def)
  with assms(1) show ?thesis
    by (simp add: upsertLayer_def createLayerForFeature_def attachLayerHandlers_def
      detachLayerHandlers_def Let_def layerFor_def applyBaseStyle_def)
qed

lemma mapGet_foldl_upsertLayer_other:
  "k \<notin> fid ` set items \<Longrightarrow> mapGet k (layersRef (foldl upsertLayer c items)) = mapGet k (layersRef c)"
  by (induction items arbitrary: c) (auto simp: mapGet_upsertLayer_other)

lemma mapGet_foldl_upsertLayer_new:
  assumes "hasMap c" "distinct (map fid items)" "f \<in> set items" "fid f \<notin> layerKeys c"
  shows "\<exists>l. mapGet (fid f) (layersRef (foldl upsertLayer c items)) = Some l \<and> layerFor f l"
  using assms
proof (induction items arbitrary: c)
  case Nil
  then show ?case by simp
next
  case (Cons x xs)
  show ?case
  proof (cases "x = f")
    case True
    from Cons.prems(2) True have "fid f \<notin> fid ` set xs" by auto
    then have "mapGet (fid f) (layersRef (foldl upsertLayer (upsertLayer c f) xs))
               = mapGet (fid f) (layersRef (upsertLayer c f))"
      by (rule mapGet_foldl_upsertLayer_other)
    with mapGet_upsertLayer_new[OF Cons.prems(1) Cons.prems(4)] True show ?thesis by simp
  next
    case False
    with Cons.prems have f: "f \<in> set xs" and d: "distinct (map fid xs)" and ne: "fid x \<noteq> fid f"
      by auto
    have k: "fid f \<notin> layerKeys (upsertLayer c x)"
      using Cons.prems(1,4) ne by (simp add: layerKeys_upsertLayer)
    have m: "hasMap (upsertLayer c x)" using Cons.prems(1) by simp
    from Cons.IH[OF m d f k] show ?thesis by simp
  qed
qed

lemma mapGet_removeStale_kept:
  "k \<in> fid ` set items \<Longrightarrow> mapGet k (layersRef (removeStale items c i)) = mapGet k (layersRef c)"
proof (cases "i \<in> fid ` set items")
  case True
  then show ?thesis by (simp add: layersRef_removeStale)
next
  case False
  assume "k \<in> fid ` set items"
  with False have "k \<noteq> i" by auto
  with False show ?thesis by (simp add: layersRef_removeStale)
qed

lemma mapGet_foldl_removeStale_kept:
  "k \<in> fid ` set items \<Longrightarrow>
   mapGet k (layersRef (foldl (removeStale items) c ks)) = mapGet k (layersRef c)"
  by (induction ks arbitrary: c) (simp_all add: mapGet_removeStale_kept)

lemma syncLayers_layer_new:
  assumes "hasMap c" "distinct (map fid items)" "f \<in> set items" "fid f \<notin> layerKeys c"
  shows "\<exists>l. mapGet (fid f) (layersRef (syncLayers items c)) = Some l \<and> layerFor f l"
proof -
  have k: "fid f \<in> fid ` set items" using assms(3) by simp
  show ?thesis
    using assms(1) mapGet_foldl_upsertLayer_new[OF assms]
    by (simp add: syncLayers_eq mapGet_foldl_removeStale_kept[OF k])
qed

lemma suppress_upsertLayer [simp]:
  "suppressLocalEventsRef (upsertLayer c f) = suppressLocalEventsRef c"
  by (simp add: upsertLayer_def createLayerForFeature_def attachLayerHandlers_def
      detachLayerHandlers_def Let_def split: option.split)

lemma suppress_removeStale:
  "\<not> suppressLocalEventsRef c \<Longrightarrow> \<not> suppressLocalEventsRef (removeStale items c i)"
  by (simp add: removeStale_def Let_def split: option.split)

lemma suppress_syncLayers:
  "\<not> suppressLocalEventsRef c \<Longrightarrow> \<not> suppressLocalEventsRef (syncLayers items c)"
proof -
  assume s: "\<not> suppressLocalEventsRef c"
  have a: "\<not> suppressLocalEventsRef (foldl upsertLayer c items)"
    by (rule foldl_invariant[where P = "\<lambda>c. \<not> suppressLocalEventsRef c"]) (simp_all add: s)
  have "\<not> suppressLocalEventsRef (foldl (removeStale items) (foldl upsertLayer c items) ks)" for ks
    by (rule foldl_invariant[where P = "\<lambda>c. \<not> suppressLocalEventsRef c"])
       (simp_all add: a suppress_removeStale)
  with s show ?thesis by (simp add: syncLayers_eq)
qed

lemma commit_fields [simp]:
  "connected (commit orig ch c) = connected c"
  "readOnly (commit orig ch c) = readOnly c"
  "hasMap (commit orig ch c) = hasMap c"
  "undoOrigin (commit orig ch c) = undoOrigin c"
  "clientId (commit orig ch c) = clientId c"
  "echoRemovals (commit orig ch c) = echoRemovals c"
  "suppressLocalEventsRef (commit orig ch c) = suppressLocalEventsRef c"
  "layersRef (commit orig ch c) = layersRef c"
  "transactions (commit orig ch c) = transactions c @ [\<lparr>tx_origin = orig, tx_change = ch\<rparr>]"
  by (simp_all add: commit_def applyChange_def Let_def split: change.split)

lemma docFeatures_commit:
  "docFeatures (commit orig (Push fs) c) = docFeatures c @ fs"
  "docFeatures (commit orig (DeleteAt i) c) = take i (docFeatures c) @ drop (Suc i) (docFeatures c)"
  "docFeatures (commit orig (ReplaceAt i f) c) = take i (docFeatures c) @ [f] @ drop (Suc i) (docFeatures c)"
  by (simp_all add: commit_def applyChange_def Let_def)

lemma featureTransactions_commit:
  "featureTransactions (commit orig ch c) =
     featureTransactions c @ (if featureChange ch then [\<lparr>tx_origin = orig, tx_change = ch\<rparr>] else [])"
  by (simp add: featureTransactions_def)

lemma findIndex_Some:
  "i \<in> fid ` set fs \<Longrightarrow> \<exists>n. findIndex i fs = Some n"
  by (induction fs) auto

lemma findIndex_delete:
  "distinct (map fid fs) \<Longrightarrow> findIndex i fs = Some n \<Longrightarrow>
   take n fs @ drop (Suc n) fs = filter (\<lambda>f. fid f \<noteq> i) fs"
proof (induction fs arbitrary: n)
  case Nil
  then show ?case by simp
next
  case (Cons x xs)
  show ?case
  proof (cases "fid x = i")
    case True
    with Cons.prems have n: "n = 0" and "i \<notin> fid ` set xs" by auto
    then have "filter (\<lambda>f. fid f \<noteq> i) xs = xs" by (auto simp: filter_id_conv)
    with True n show ?thesis by simp
  next
    case False
    with Cons.prems obtain m where m: "findIndex i xs = Some m" "n = Suc m" by auto
    from Cons.prems have "distinct (map fid xs)" by simp
    from Cons.IH[OF this m(1)] False m(2) show ?thesis by simp
  qed
qed

lemma findIndex_append_new:
  "i \<notin> fid ` set fs \<Longrightarrow> fid f = i \<Longrightarrow> findIndex i (fs @ [f]) = Some (length fs)"
  by (induction fs) auto

text \<open>A user's removal of a layer, in a client that may edit.\<close>

lemma userRemovesLayer_deletes:
  assumes ok: "connected c" "hasMap c" "\<not> readOnly c" "\<not> suppressLocalEventsRef c"
    and l: "featureId l = Some i" "i \<noteq> []"
    and present: "findIndex i (docFeatures c) = Some n"
  shows "docFeatures (userRemovesLayer l c) = take n (docFeatures c) @ drop (Suc n) (docFeatures c)"
    and "featureTransactions (userRemovesLayer l c) =
           featureTransactions c @ [\<lparr>tx_origin = LocalEdit (undoOrigin c), tx_change = DeleteAt n\<rparr>]"
    and "layerKeys (userRemovesLayer l c) = fid ` set (take n (docFeatures c) @ drop (Suc n) (docFeatures c))"
proof -
  let ?c0 = "c\<lparr>onMap := onMap c - {lid l}\<rparr>"
  let ?c1 = "commit (LocalEdit (undoOrigin c)) (DeleteAt n) ?c0"
  let ?c2 = "syncLayers (docFeatures ?c1) (?c1\<lparr>featuresState := docFeatures ?c1\<rparr>)"
  have h: "handleRemove l ?c0 = ?c2"
    using ok l present by (simp add: handleRemove.simps Let_def)
  have u: "userRemovesLayer l c = handleRemoveFeature l ?c2"
    by (simp add: userRemovesLayer_def firePmRemove_def h)
  have d1: "docFeatures ?c1 = take n (docFeatures c) @ drop (Suc n) (docFeatures c)"
    by (simp add: docFeatures_commit)
  have f2: "docFrame (?c1\<lparr>featuresState := docFeatures ?c1\<rparr>) ?c2"
    by (rule docFrame_syncLayers)
  have f3: "docFrame ?c2 (handleRemoveFeature l ?c2)"
    by (rule docFrame_handleRemoveFeature)
  note f = docFrame_trans[OF f2 f3]
  show "docFeatures (userRemovesLayer l c) = take n (docFeatures c) @ drop (Suc n) (docFeatures c)"
    using f d1 by (simp add: u docFrame_def)
  have "featureTransactions (?c1\<lparr>featuresState := docFeatures ?c1\<rparr>) = featureTransactions ?c1"
    by (simp add: featureTransactions_def)
  also have "\<dots> = featureTransactions ?c0 @ [\<lparr>tx_origin = LocalEdit (undoOrigin c), tx_change = DeleteAt n\<rparr>]"
    by (simp add: featureTransactions_commit featureChange_def)
  also have "featureTransactions ?c0 = featureTransactions c"
    by (simp add: featureTransactions_def)
  finally show "featureTransactions (userRemovesLayer l c) =
           featureTransactions c @ [\<lparr>tx_origin = LocalEdit (undoOrigin c), tx_change = DeleteAt n\<rparr>]"
    using f by (simp add: u docFrame_def)
  have m: "hasMap (?c1\<lparr>featuresState := docFeatures ?c1\<rparr>)" using ok(2) by simp
  have "layerKeys (handleRemoveFeature l ?c2) = layerKeys ?c2" by (simp add: layerKeys_def)
  also have "\<dots> = fid ` set (docFeatures ?c1)" by (rule layerKeys_syncLayers[OF m])
  finally show "layerKeys (userRemovesLayer l c) = fid ` set (take n (docFeatures c) @ drop (Suc n) (docFeatures c))"
    by (simp add: u d1)
qed

lemma transact_Push:
  "transact orig (Push fs) c =
     syncLayers (docFeatures c @ fs) ((commit orig (Push fs) c)\<lparr>featuresState := docFeatures c @ fs\<rparr>)"
  by (simp add: transact_def featuresObserver_def Let_def docFeatures_commit)

lemma transact_Push_props:
  assumes m: "hasMap c"
  shows "docFeatures (transact orig (Push fs) c) = docFeatures c @ fs"
    and "featureTransactions (transact orig (Push fs) c)
           = featureTransactions c @ [\<lparr>tx_origin = orig, tx_change = Push fs\<rparr>]"
    and "layerKeys (transact orig (Push fs) c) = fid ` set (docFeatures c @ fs)"
    and "connected (transact orig (Push fs) c) = connected c"
    and "readOnly (transact orig (Push fs) c) = readOnly c"
    and "hasMap (transact orig (Push fs) c)"
    and "undoOrigin (transact orig (Push fs) c) = undoOrigin c"
    and "\<not> suppressLocalEventsRef c \<Longrightarrow> \<not> suppressLocalEventsRef (transact orig (Push fs) c)"
proof -
  let ?c1 = "(commit orig (Push fs) c)\<lparr>featuresState := docFeatures c @ fs\<rparr>"
  have f: "docFrame ?c1 (syncLayers (docFeatures c @ fs) ?c1)" by (rule docFrame_syncLayers)
  have m1: "hasMap ?c1" using m by simp
  show "docFeatures (transact orig (Push fs) c) = docFeatures c @ fs"
    using f by (simp add: transact_Push docFrame_def docFeatures_commit)
  have "featureTransactions ?c1 = featureTransactions (commit orig (Push fs) c)"
    by (simp add: featureTransactions_def)
  then show "featureTransactions (transact orig (Push fs) c)
           = featureTransactions c @ [\<lparr>tx_origin = orig, tx_change = Push fs\<rparr>]"
    using f by (simp add: transact_Push docFrame_def featureTransactions_commit featureChange_def)
  show "layerKeys (transact orig (Push fs) c) = fid ` set (docFeatures c @ fs)"
    unfolding transact_Push by (rule layerKeys_syncLayers[OF m1])
  show "connected (transact orig (Push fs) c) = connected c"
    using f by (simp add: transact_Push docFrame_def)
  show "readOnly (transact orig (Push fs) c) = readOnly c"
    using f by (simp add: transact_Push docFrame_def)
  show "hasMap (transact orig (Push fs) c)"
    using m by (simp add: transact_Push)
  show "undoOrigin (transact orig (Push fs) c) = undoOrigin c"
    using f by (simp add: transact_Push docFrame_def)
  show "\<not> suppressLocalEventsRef (transact orig (Push fs) c)" if "\<not> suppressLocalEventsRef c"
    unfolding transact_Push by (rule suppress_syncLayers) (simp add: that)
qed

lemma transact_Push_layer:
  assumes "hasMap c" "distinct (map fid (docFeatures c @ [f]))" "fid f \<notin> layerKeys c"
  shows "\<exists>l. mapGet (fid f) (layersRef (transact orig (Push [f]) c)) = Some l \<and> layerFor f l"
proof -
  let ?c1 = "(commit orig (Push [f]) c)\<lparr>featuresState := docFeatures c @ [f]\<rparr>"
  have "\<exists>l. mapGet (fid f) (layersRef (syncLayers (docFeatures c @ [f]) ?c1)) = Some l \<and> layerFor f l"
    by (rule syncLayers_layer_new) (use assms in \<open>simp_all add: layerKeys_def\<close>)
  then show ?thesis by (simp add: transact_Push)
qed

subsection \<open>Commit, reconcile, delete\<close>

text \<open>
  Claim C7. In a connected client that may edit, with a map, outside reconciliation, whose
  document has distinct feature ids: committing a new feature (from any origin) makes the
  layer table hold a layer for exactly the feature ids of the document, the layer of the
  new feature carrying its id, the feature and its shape; when the user then removes that
  layer, the feature id is no longer in the document's feature list (the list is what it was
  before the commit), the layer table follows, and the feature transactions recorded are
  the commit and a single deletion with the client's own origin. Reconciliation itself, on
  any list, leaves the layer table with a layer for exactly the ids of the list, and the
  feature list and the feature transactions as they were: the layers it removes are removed
  under the suppression flag.
\<close>

theorem reconciler_round_trip:
  assumes "connected c" and "hasMap c" and "\<not> readOnly c" and "\<not> suppressLocalEventsRef c"
    and "distinct (map fid (docFeatures c @ [f]))" and "fid f \<noteq> []" and "fid f \<notin> layerKeys c"
  shows "docFeatures (transact orig (Push [f]) c) = docFeatures c @ [f]
     \<and> layerKeys (transact orig (Push [f]) c) = fid ` set (docFeatures c @ [f])
     \<and> mapGet (fid f) (layersRef (transact orig (Push [f]) c)) \<noteq> None
     \<and> layerFor f (the (mapGet (fid f) (layersRef (transact orig (Push [f]) c))))
     \<and> fid f \<notin> fid ` set (docFeatures (userRemovesLayer
           (the (mapGet (fid f) (layersRef (transact orig (Push [f]) c)))) (transact orig (Push [f]) c)))
     \<and> docFeatures (userRemovesLayer
           (the (mapGet (fid f) (layersRef (transact orig (Push [f]) c)))) (transact orig (Push [f]) c))
         = docFeatures c
     \<and> layerKeys (userRemovesLayer
           (the (mapGet (fid f) (layersRef (transact orig (Push [f]) c)))) (transact orig (Push [f]) c))
         = fid ` set (docFeatures c)
     \<and> featureTransactions (userRemovesLayer
           (the (mapGet (fid f) (layersRef (transact orig (Push [f]) c)))) (transact orig (Push [f]) c))
         = featureTransactions c @ [\<lparr>tx_origin = orig, tx_change = Push [f]\<rparr>,
              \<lparr>tx_origin = LocalEdit (undoOrigin c), tx_change = DeleteAt (length (docFeatures c))\<rparr>]
     \<and> layerKeys (syncLayers items c) = fid ` set items
     \<and> docFeatures (syncLayers items c) = docFeatures c
     \<and> featureTransactions (syncLayers items c) = featureTransactions c"
proof -
  let ?c1 = "transact orig (Push [f]) c"
  let ?l = "the (mapGet (fid f) (layersRef ?c1))"
  note p = transact_Push_props[OF assms(2), of orig "[f]"]
  from transact_Push_layer[OF assms(2,5,7), of orig]
  have l: "mapGet (fid f) (layersRef ?c1) \<noteq> None" "layerFor f ?l" by auto
  have new: "fid f \<notin> fid ` set (docFeatures c)" using assms(5) by auto
  have idx: "findIndex (fid f) (docFeatures ?c1) = Some (length (docFeatures c))"
    using new by (simp add: p(1) findIndex_append_new)
  have ok: "connected ?c1" "hasMap ?c1" "\<not> readOnly ?c1" "\<not> suppressLocalEventsRef ?c1"
    using assms(1,3,4) p by simp_all
  have lf: "featureId ?l = Some (fid f)" using l(2) by (simp add: layerFor_def)
  note r = userRemovesLayer_deletes[OF ok lf assms(6) idx]
  have rest: "take (length (docFeatures c)) (docFeatures ?c1) @ drop (Suc (length (docFeatures c))) (docFeatures ?c1)
              = docFeatures c"
    by (simp add: p(1))
  have sy: "docFrame c (syncLayers items c)" by (rule docFrame_syncLayers)
  show ?thesis
  proof (intro conjI)
    show "docFeatures ?c1 = docFeatures c @ [f]" by (rule p(1))
    show "layerKeys ?c1 = fid ` set (docFeatures c @ [f])" by (rule p(3))
    show "mapGet (fid f) (layersRef ?c1) \<noteq> None" by (rule l(1))
    show "layerFor f ?l" by (rule l(2))
    show "fid f \<notin> fid ` set (docFeatures (userRemovesLayer ?l ?c1))"
      using new by (simp add: r(1) rest)
    show "docFeatures (userRemovesLayer ?l ?c1) = docFeatures c"
      by (simp add: r(1) rest)
    show "layerKeys (userRemovesLayer ?l ?c1) = fid ` set (docFeatures c)"
      by (simp add: r(3) rest)
    show "featureTransactions (userRemovesLayer ?l ?c1)
         = featureTransactions c @ [\<lparr>tx_origin = orig, tx_change = Push [f]\<rparr>,
              \<lparr>tx_origin = LocalEdit (undoOrigin c), tx_change = DeleteAt (length (docFeatures c))\<rparr>]"
      by (simp add: r(2) p(2) p(7))
    show "layerKeys (syncLayers items c) = fid ` set items"
      by (rule layerKeys_syncLayers[OF assms(2)])
    show "docFeatures (syncLayers items c) = docFeatures c"
      using sy by (simp add: docFrame_def)
    show "featureTransactions (syncLayers items c) = featureTransactions c"
      using sy by (simp add: docFrame_def)
  qed
qed

lemma viewer1_eq:
  "viewer1 = viewer0\<lparr>docFeatures := [track1],
       transactions := [\<lparr>tx_origin = ProviderOrigin, tx_change = Push [track1]\<rparr>],
       featuresState := [track1],
       layersRef := [(''f1'', \<lparr>lid = 0, featureId = Some ''f1'', lfeature = Some track1,
                              isCircleMarker = False, latlngs = coords track1\<rparr>)],
       layerHandlersRef := [''f1'' \<mapsto> KLine],
       featureCacheRef := [''f1'' \<mapsto> track1],
       onMap := {0}, nextLayer := 1\<rparr>"
  by (simp add: viewer1_def remoteUpdate_def transact_def featuresObserver_def commit_def
      applyChange_def syncLayers_eq viewer0_def editor0_def upsertLayer_def mapGet_def mapSet_def
      createLayerForFeature_def attachLayerHandlers_def detachLayerHandlers_def applyBaseStyle_def
      removeStale_def track1_def Let_def)

subsection \<open>A read-only client and the edit handler\<close>

text \<open>
  The edit listener does not look at the read-only flag. A read-only client has reconciled
  a line committed by a peer, so the line's layer carries the listener (listeners are
  attached whatever the flag); run on the reshaped layer, it would replace the feature in
  the shared document. What keeps a read-only session from running it is shown further
  down: the toolkit raises the edit events only in edit or drag mode, and a read-only
  session cannot enter either.
\<close>

lemma editHandler_unguarded:
  "readOnly viewer1
   \<and> docFeatures viewer1 = [track1]
   \<and> mapGet ''f1'' (layersRef viewer1)
       = Some \<lparr>lid = 0, featureId = Some ''f1'', lfeature = Some track1,
                isCircleMarker = False, latlngs = coords track1\<rparr>
   \<and> layerHandlersRef viewer1 ''f1'' = Some KLine
   \<and> docFeatures (editHandler \<lparr>lid = 0, featureId = Some ''f1'', lfeature = Some track1,
                                 isCircleMarker = False, latlngs = [(0, 0), (5, 5)]\<rparr> ''f1'' KLine viewer1)
       = [\<lparr>fid = ''f1'', fkind = KLine, coords = [(0, 0), (5, 5)]\<rparr>]
   \<and> featureTransactions (editHandler \<lparr>lid = 0, featureId = Some ''f1'', lfeature = Some track1,
                                 isCircleMarker = False, latlngs = [(0, 0), (5, 5)]\<rparr> ''f1'' KLine viewer1)
       = [\<lparr>tx_origin = ProviderOrigin, tx_change = Push [track1]\<rparr>,
          \<lparr>tx_origin = LocalEdit 7,
           tx_change = ReplaceAt 0 \<lparr>fid = ''f1'', fkind = KLine, coords = [(0, 0), (5, 5)]\<rparr>\<rparr>]"
proof -
  let ?l = "\<lparr>lid = 0, featureId = Some ''f1'', lfeature = Some track1,
             isCircleMarker = False, latlngs = [(0, 0), (5, 5)]\<rparr>"
  let ?f = "\<lparr>fid = ''f1'', fkind = KLine, coords = [(0, 0), (5, 5)]\<rparr>"
  let ?c = "viewer1\<lparr>featureCacheRef := (featureCacheRef viewer1)(''f1'' \<mapsto> ?f)\<rparr>"
  let ?c1 = "commit (LocalEdit 7) (ReplaceAt 0 ?f) ?c"
  have f: "layerToFeature ?l ''f1'' KLine = ?f"
    by (simp add: layerToFeature_def normalizeFeature_def track1_def)
  have v1: "connected viewer1" "undoOrigin viewer1 = 7" "findIndex ''f1'' (docFeatures viewer1) = Some 0"
    by (simp_all add: viewer1_eq viewer0_def editor0_def track1_def)
  have e: "editHandler ?l ''f1'' KLine viewer1
           = syncLayers (docFeatures ?c1) (?c1\<lparr>featuresState := docFeatures ?c1\<rparr>)"
    by (simp add: editHandler_def f commitFeatureUpdate_def transact_def featuresObserver_def Let_def v1)
  have d: "docFrame (?c1\<lparr>featuresState := docFeatures ?c1\<rparr>) (editHandler ?l ''f1'' KLine viewer1)"
    unfolding e by (rule docFrame_syncLayers)
  have v2: "docFeatures viewer1 = [track1]"
    "transactions viewer1 = [\<lparr>tx_origin = ProviderOrigin, tx_change = Push [track1]\<rparr>]"
    by (simp_all add: viewer1_eq)
  have d1: "docFeatures ?c1 = [?f]"
    by (simp add: docFeatures_commit v2)
  have t1: "featureTransactions (?c1\<lparr>featuresState := docFeatures ?c1\<rparr>)
            = [\<lparr>tx_origin = ProviderOrigin, tx_change = Push [track1]\<rparr>,
               \<lparr>tx_origin = LocalEdit 7, tx_change = ReplaceAt 0 ?f\<rparr>]"
    by (simp add: featureTransactions_def featureChange_def v2)
  have r: "readOnly viewer1" by (simp add: viewer1_eq viewer0_def)
  have v: "docFeatures viewer1 = [track1]" by (simp add: viewer1_eq)
  have g: "mapGet ''f1'' (layersRef viewer1)
       = Some \<lparr>lid = 0, featureId = Some ''f1'', lfeature = Some track1,
                isCircleMarker = False, latlngs = coords track1\<rparr>"
    by (simp add: viewer1_eq mapGet_def)
  have h: "layerHandlersRef viewer1 ''f1'' = Some KLine" by (simp add: viewer1_eq)
  from d d1 t1 r v g h show ?thesis by (simp add: docFrame_def)
qed

theorem reconciler_round_trip_witness:
  "connected editor0 \<and> hasMap editor0 \<and> \<not> readOnly editor0 \<and> \<not> suppressLocalEventsRef editor0
   \<and> distinct (map fid (docFeatures editor0 @ [track1])) \<and> fid track1 \<noteq> []
   \<and> fid track1 \<notin> layerKeys editor0
   \<and> docFeatures (transact ProviderOrigin (Push [track1]) editor0) = [track1]
   \<and> layerKeys (transact ProviderOrigin (Push [track1]) editor0) = {''f1''}
   \<and> layerFor track1 (the (mapGet ''f1'' (layersRef (transact ProviderOrigin (Push [track1]) editor0))))
   \<and> docFeatures (userRemovesLayer
         (the (mapGet ''f1'' (layersRef (transact ProviderOrigin (Push [track1]) editor0))))
         (transact ProviderOrigin (Push [track1]) editor0)) = []
   \<and> layerKeys (userRemovesLayer
         (the (mapGet ''f1'' (layersRef (transact ProviderOrigin (Push [track1]) editor0))))
         (transact ProviderOrigin (Push [track1]) editor0)) = {}"
proof -
  have h: "connected editor0" "hasMap editor0" "\<not> readOnly editor0" "\<not> suppressLocalEventsRef editor0"
    "distinct (map fid (docFeatures editor0 @ [track1]))" "fid track1 \<noteq> []"
    "fid track1 \<notin> layerKeys editor0"
    by (simp_all add: editor0_def track1_def layerKeys_def)
  have i: "fid track1 = ''f1''" by (simp add: track1_def)
  have e: "docFeatures editor0 = []" by (simp add: editor0_def)
  from reconciler_round_trip[OF h, of ProviderOrigin "[]"] h
  show ?thesis by (simp add: i e)
qed

text \<open>
  The handlers that check the read-only flag themselves: in a read-only client they leave
  the feature list and the list of feature transactions as they were (creation discards the
  drawn layer under the suppression flag; removal, import, view sharing, undo and redo
  return at their guard).
\<close>

lemma readOnly_guarded_handlers:
  assumes "readOnly c"
  shows "docFrame c (handleCreate l newId c)"
    and "handleRemove l c = c"
    and "handleImportFiles fs c = (if connected c then toast ''Session en lecture seule.'' c
                                   else toast ''Connexion non etablie.'' c)"
    and "shareView silent v c = c \<or> shareView silent v c = toast ''Session en lecture seule.'' c"
    and "handleUndo u c = c"
    and "handleRedo r c = c"
proof -
  let ?c1 = "c\<lparr>suppressLocalEventsRef := True\<rparr>"
  have a: "docFrame c ?c1" by (simp add: docFrame_def featureTransactions_def)
  have b: "docFrame ?c1 (mapRemoveLayer l ?c1)"
    by (rule docFrame_mapRemoveLayer_suppressed) simp
  have d: "docFrame c ((mapRemoveLayer l ?c1)\<lparr>suppressLocalEventsRef := False\<rparr>)"
    using docFrame_trans[OF a b] by (simp add: docFrame_def featureTransactions_def)
  show "docFrame c (handleCreate l newId c)"
    using assms d by (simp add: handleCreate_def)
  show "handleRemove l c = c" using assms by (rule handleRemove_readOnly)
  show "handleImportFiles fs c = (if connected c then toast ''Session en lecture seule.'' c
                                   else toast ''Connexion non etablie.'' c)"
    using assms by (simp add: handleImportFiles_def)
  show "shareView silent v c = c \<or> shareView silent v c = toast ''Session en lecture seule.'' c"
    using assms by (simp add: shareView_def)
  show "handleUndo u c = c" using assms by (simp add: handleUndo_def)
  show "handleRedo r c = c" using assms by (simp add: handleRedo_def)
qed

lemma ownFrame_refl [simp]: "ownFrame c c"
  by (simp add: ownFrame_def)











lemma toast_frames [simp]:
  "ownFrame c (toast m c)" "docFrame c (toast m c)" "viewCurrent (toast m c) = viewCurrent c"
  by (simp_all add: toast_def ownFrame_def ownWrites_def docFrame_def featureTransactions_def)



lemma modesOff_cl [simp]: "modesOff (p\<lparr>cl := c\<rparr>) = modesOff p"
  by (simp add: modesOff_def)



lemma docFrame_readOnly: "docFrame c c' \<Longrightarrow> readOnly c' = readOnly c"
  by (simp add: docFrame_def)



subsection \<open>A read-only session\<close>




section \<open>Properties of the undo manager\<close>

lemma itemState_markDeleted:
  "i \<notin> set ids \<Longrightarrow> itemState (markDeleted ids flag d) i = itemState d i"
  unfolding itemState_def markDeleted_def by (induction d) auto

lemma itemState_invertTransaction:
  "i \<notin> touched t \<Longrightarrow> itemState (invertTransaction t d) i = itemState d i"
  by (simp add: invertTransaction_def touched_def itemState_markDeleted)

lemma markDeleted_insertAfter:
  "markDeleted ids flag (insertAfter p new d)
     = insertAfter p (if item_id new \<in> set ids then new\<lparr>item_deleted := flag\<rparr> else new)
         (markDeleted ids flag d)"
proof (cases p)
  case None
  then show ?thesis by (simp add: markDeleted_def)
next
  case (Some q)
  have "markDeleted ids flag (insertAfter (Some q) new d)
     = insertAfter (Some q) (if item_id new \<in> set ids then new\<lparr>item_deleted := flag\<rparr> else new)
         (markDeleted ids flag d)"
    unfolding markDeleted_def by (induction d) auto
  with Some show ?thesis by simp
qed

lemma visible_insertAfter_deleted:
  "item_deleted new \<Longrightarrow> visibleFeatures (insertAfter p new d) = visibleFeatures d"
proof (cases p)
  case None
  assume "item_deleted new"
  with None show ?thesis by (simp add: visibleFeatures_def)
next
  case (Some q)
  assume n: "item_deleted new"
  have "visibleFeatures (insertAfter (Some q) new d) = visibleFeatures d"
    unfolding visibleFeatures_def using n by (induction d) auto
  with Some show ?thesis by simp
qed

lemma visible_undo_inserts:
  assumes "list_all (\<lambda>p. item_id (snd p) \<in> set ins \<and> item_id (snd p) \<notin> set del) ps"
  shows "visibleFeatures (markDeleted del False (markDeleted ins True
           (foldl (\<lambda>d' p. insertAfter (fst p) (snd p) d') d ps)))
         = visibleFeatures (markDeleted del False (markDeleted ins True d))"
  using assms
proof (induction ps arbitrary: d)
  case Nil
  then show ?case by simp
next
  case (Cons p ps)
  from Cons.prems have p: "item_id (snd p) \<in> set ins" "item_id (snd p) \<notin> set del"
    and rest: "list_all (\<lambda>p. item_id (snd p) \<in> set ins \<and> item_id (snd p) \<notin> set del) ps"
    by simp_all
  have "visibleFeatures (markDeleted del False (markDeleted ins True
           (foldl (\<lambda>d' p. insertAfter (fst p) (snd p) d') (insertAfter (fst p) (snd p) d) ps)))
        = visibleFeatures (markDeleted del False (markDeleted ins True (insertAfter (fst p) (snd p) d)))"
    by (rule Cons.IH[OF rest])
  also have "\<dots> = visibleFeatures (markDeleted del False (markDeleted ins True d))"
    using p by (simp add: markDeleted_insertAfter visible_insertAfter_deleted)
  finally show ?case by simp
qed

lemma markDeleted_restore:
  assumes "list_all (\<lambda>x. item_id x \<notin> set ins) d"
    and "list_all (\<lambda>x. item_id x \<in> set del \<longrightarrow> \<not> item_deleted x) d"
  shows "markDeleted del False (markDeleted ins True (markDeleted del True d)) = d"
  using assms unfolding markDeleted_def
  by (induction d) auto

lemma invert_after_apply:
  assumes "applicable t d"
  shows "visibleFeatures (invertTransaction t (applyTransaction t d)) = visibleFeatures d"
proof -
  let ?ins = "insertedIds t" and ?del = "dtx_deleted t"
  from assms have a: "list_all (\<lambda>i. i \<notin> item_id ` set d \<and> i \<notin> set ?del) ?ins"
    and b: "list_all (\<lambda>x. item_id x \<in> set ?del \<longrightarrow> \<not> item_deleted x) d"
    by (simp_all add: applicable_def)
  have ps: "list_all (\<lambda>p. item_id (snd p) \<in> set ?ins \<and> item_id (snd p) \<notin> set ?del) (dtx_inserted t)"
    using a by (auto simp: insertedIds_def list_all_iff)
  have fresh: "list_all (\<lambda>x. item_id x \<notin> set ?ins) d"
    using a by (auto simp: list_all_iff)
  have "visibleFeatures (invertTransaction t (applyTransaction t d))
        = visibleFeatures (markDeleted ?del False (markDeleted ?ins True (markDeleted ?del True d)))"
    unfolding invertTransaction_def applyTransaction_def by (rule visible_undo_inserts[OF ps])
  also have "\<dots> = visibleFeatures d"
    by (simp add: markDeleted_restore[OF fresh b])
  finally show ?thesis .
qed

subsection \<open>Undo reverts the client's own transactions only\<close>

text \<open>
  Claim C2. A manager with an empty undo stack observes a local transaction A, a
  transaction B of another origin, and a local transaction C. The first undo pops C and
  applies its inverse, which gives back the feature list from before C; the second pops A
  and applies its inverse; after both, every item that neither A nor C touched, so
  everything B did on its own items, is as the three transactions left it; a third undo
  changes nothing, and B is on no stack.
\<close>

theorem undo_scoped_to_local:
  assumes A: "dtx_origin A = LocalEdit (trackedOrigin m)"
    and B: "dtx_origin B \<noteq> LocalEdit (trackedOrigin m)"
    and C: "dtx_origin C = LocalEdit (trackedOrigin m)"
    and fresh: "undoStack m = []"
    and okC: "applicable C (applyTransaction B (applyTransaction A d))"
  shows "undo (transactDoc C (transactDoc B (transactDoc A (m, d))))
           = (m\<lparr>undoStack := [A], redoStack := [C]\<rparr>,
              invertTransaction C (applyTransaction C (applyTransaction B (applyTransaction A d))))
     \<and> visibleFeatures (snd (undo (transactDoc C (transactDoc B (transactDoc A (m, d))))))
           = visibleFeatures (applyTransaction B (applyTransaction A d))
     \<and> undo (undo (transactDoc C (transactDoc B (transactDoc A (m, d)))))
           = (m\<lparr>undoStack := [], redoStack := [A, C]\<rparr>,
              invertTransaction A (invertTransaction C
                (applyTransaction C (applyTransaction B (applyTransaction A d)))))
     \<and> (\<forall>i. i \<notin> touched A \<union> touched C \<longrightarrow>
          itemState (snd (undo (undo (transactDoc C (transactDoc B (transactDoc A (m, d))))))) i
            = itemState (applyTransaction C (applyTransaction B (applyTransaction A d))) i)
     \<and> undo (undo (undo (transactDoc C (transactDoc B (transactDoc A (m, d))))))
           = undo (undo (transactDoc C (transactDoc B (transactDoc A (m, d)))))
     \<and> B \<notin> set [A, C]"
proof -
  let ?d3 = "applyTransaction C (applyTransaction B (applyTransaction A d))"
  let ?s3 = "transactDoc C (transactDoc B (transactDoc A (m, d)))"
  have s3: "?s3 = (m\<lparr>undoStack := [C, A], redoStack := []\<rparr>, ?d3)"
    using A B C fresh by (simp add: transactDoc_def afterTransaction_def)
  have u1: "undo ?s3 = (m\<lparr>undoStack := [A], redoStack := [C]\<rparr>, invertTransaction C ?d3)"
    by (simp add: s3 undo_def)
  have u2: "undo (undo ?s3) = (m\<lparr>undoStack := [], redoStack := [A, C]\<rparr>,
              invertTransaction A (invertTransaction C ?d3))"
    by (subst u1) (simp add: undo_def)
  have u3: "undo (undo (undo ?s3)) = undo (undo ?s3)"
    by (subst (1 2) u2) (simp add: undo_def)
  show ?thesis
  proof (intro conjI allI impI)
    show "undo ?s3 = (m\<lparr>undoStack := [A], redoStack := [C]\<rparr>, invertTransaction C ?d3)"
      by (rule u1)
    show "visibleFeatures (snd (undo ?s3)) = visibleFeatures (applyTransaction B (applyTransaction A d))"
      by (simp only: u1 snd_conv invert_after_apply[OF okC])
    show "undo (undo ?s3) = (m\<lparr>undoStack := [], redoStack := [A, C]\<rparr>,
              invertTransaction A (invertTransaction C ?d3))"
      by (rule u2)
    show "undo (undo (undo ?s3)) = undo (undo ?s3)" by (rule u3)
    show "B \<notin> set [A, C]" using A B C by auto
  next
    fix i assume "i \<notin> touched A \<union> touched C"
    then have "itemState (invertTransaction A (invertTransaction C ?d3)) i = itemState ?d3 i"
      by (simp add: itemState_invertTransaction)
    then show "itemState (snd (undo (undo ?s3))) i = itemState ?d3 i"
      by (simp only: u2 snd_conv)
  qed
qed

theorem undo_scoped_to_local_witness:
  "dtx_origin (pushItem (LocalEdit 7) None 11 ''a'') = LocalEdit (trackedOrigin manager0)
   \<and> dtx_origin (pushItem ProviderOrigin (Some 11) 12 ''b'') \<noteq> LocalEdit (trackedOrigin manager0)
   \<and> dtx_origin (pushItem (LocalEdit 7) (Some 12) 13 ''c'') = LocalEdit (trackedOrigin manager0)
   \<and> undoStack manager0 = []
   \<and> applicable (pushItem (LocalEdit 7) (Some 12) 13 ''c'')
        (applyTransaction (pushItem ProviderOrigin (Some 11) 12 ''b'')
          (applyTransaction (pushItem (LocalEdit 7) None 11 ''a'') []))
   \<and> map fid (visibleFeatures (snd (transactDoc (pushItem (LocalEdit 7) (Some 12) 13 ''c'')
        (transactDoc (pushItem ProviderOrigin (Some 11) 12 ''b'')
          (transactDoc (pushItem (LocalEdit 7) None 11 ''a'') (manager0, [])))))) = [''a'', ''b'', ''c'']
   \<and> map fid (visibleFeatures (snd (undo (transactDoc (pushItem (LocalEdit 7) (Some 12) 13 ''c'')
        (transactDoc (pushItem ProviderOrigin (Some 11) 12 ''b'')
          (transactDoc (pushItem (LocalEdit 7) None 11 ''a'') (manager0, []))))))) = [''a'', ''b'']
   \<and> map fid (visibleFeatures (snd (undo (undo (transactDoc (pushItem (LocalEdit 7) (Some 12) 13 ''c'')
        (transactDoc (pushItem ProviderOrigin (Some 11) 12 ''b'')
          (transactDoc (pushItem (LocalEdit 7) None 11 ''a'') (manager0, [])))))))) = [''b'']"
proof -
  let ?A = "pushItem (LocalEdit 7) None 11 ''a''"
  let ?B = "pushItem ProviderOrigin (Some 11) 12 ''b''"
  let ?C = "pushItem (LocalEdit 7) (Some 12) 13 ''c''"
  have a: "dtx_origin ?A = LocalEdit (trackedOrigin manager0)" by (simp add: pushItem_def manager0_def)
  have b: "dtx_origin ?B \<noteq> LocalEdit (trackedOrigin manager0)" by (simp add: pushItem_def manager0_def)
  have c: "dtx_origin ?C = LocalEdit (trackedOrigin manager0)" by (simp add: pushItem_def manager0_def)
  have f: "undoStack manager0 = []" by (simp add: manager0_def)
  have d2: "applyTransaction ?B (applyTransaction ?A [])
            = [\<lparr>item_id = 11, item_feature = \<lparr>fid = ''a'', fkind = KPoint, coords = [(0, 0)]\<rparr>,
                 item_deleted = False\<rparr>,
               \<lparr>item_id = 12, item_feature = \<lparr>fid = ''b'', fkind = KPoint, coords = [(0, 0)]\<rparr>,
                 item_deleted = False\<rparr>]"
    by (simp add: applyTransaction_def pushItem_def markDeleted_def)
  have ok: "applicable ?C (applyTransaction ?B (applyTransaction ?A []))"
    unfolding d2 by (simp add: applicable_def pushItem_def insertedIds_def)
  have d3: "applyTransaction ?C (applyTransaction ?B (applyTransaction ?A []))
            = [\<lparr>item_id = 11, item_feature = \<lparr>fid = ''a'', fkind = KPoint, coords = [(0, 0)]\<rparr>,
                 item_deleted = False\<rparr>,
               \<lparr>item_id = 12, item_feature = \<lparr>fid = ''b'', fkind = KPoint, coords = [(0, 0)]\<rparr>,
                 item_deleted = False\<rparr>,
               \<lparr>item_id = 13, item_feature = \<lparr>fid = ''c'', fkind = KPoint, coords = [(0, 0)]\<rparr>,
                 item_deleted = False\<rparr>]"
    unfolding d2 by (simp add: applyTransaction_def pushItem_def markDeleted_def)
  have s3: "snd (transactDoc ?C (transactDoc ?B (transactDoc ?A (manager0, []))))
            = applyTransaction ?C (applyTransaction ?B (applyTransaction ?A []))"
    by (simp add: transactDoc_def)
  note t = undo_scoped_to_local[OF a b c f ok]
  have v3: "map fid (visibleFeatures (snd (transactDoc ?C (transactDoc ?B (transactDoc ?A (manager0, []))))))
            = [''a'', ''b'', ''c'']"
    unfolding s3 d3 by (simp add: visibleFeatures_def)
  have v2: "map fid (visibleFeatures (snd (undo (transactDoc ?C (transactDoc ?B
              (transactDoc ?A (manager0, []))))))) = [''a'', ''b'']"
  proof -
    from t have "visibleFeatures (snd (undo (transactDoc ?C (transactDoc ?B (transactDoc ?A (manager0, []))))))
           = visibleFeatures (applyTransaction ?B (applyTransaction ?A []))"
      by (rule conjunct1[OF conjunct2])
    then show ?thesis unfolding d2 by (simp add: visibleFeatures_def)
  qed
  have u2: "snd (undo (undo (transactDoc ?C (transactDoc ?B (transactDoc ?A (manager0, []))))))
            = invertTransaction ?A (invertTransaction ?C
                (applyTransaction ?C (applyTransaction ?B (applyTransaction ?A []))))"
  proof -
    from t have "undo (undo (transactDoc ?C (transactDoc ?B (transactDoc ?A (manager0, [])))))
           = (manager0\<lparr>undoStack := [], redoStack := [?A, ?C]\<rparr>,
              invertTransaction ?A (invertTransaction ?C
                (applyTransaction ?C (applyTransaction ?B (applyTransaction ?A [])))))"
      by (rule conjunct1[OF conjunct2[OF conjunct2]])
    then show ?thesis by (simp only: snd_conv)
  qed
  have v1: "map fid (visibleFeatures (snd (undo (undo (transactDoc ?C (transactDoc ?B
              (transactDoc ?A (manager0, [])))))))) = [''b'']"
    unfolding u2 d3
    by (simp add: invertTransaction_def markDeleted_def insertedIds_def pushItem_def visibleFeatures_def)
  from a b c f ok v3 v2 v1 show ?thesis by (simp only: simp_thms)
qed

end
